(* ===== verification/Jkv_Prelude.thy ===== *)
theory Jkv_Prelude
  imports Main "HOL-Library.Word"
begin

text \<open>
  Shared vocabulary of the development: machine integers, the three ways in which the C++ code can
  stop (a statement \<^verbatim>\<open>JLOG_FATAL\<close> is reached, the language gives the execution no
  meaning, or a library throws an exception, which nothing in the sources catches), sequencing of computations that may stop, the range-\<open>for\<close> loop
  over such computations, and the generic lemmas about them that every component uses.
\<close>

section \<open>Machine integers, bytes and outcomes\<close>

type_synonym u8 = "8 word"
type_synonym u16 = "16 word"
type_synonym u32 = "32 word"
type_synonym u64 = "64 word"

text \<open>\<^verbatim>\<open>std::string\<close> and protobuf \<^verbatim>\<open>bytes\<close>.\<close>

type_synonym bytes = string

text \<open>
  \<open>Fatal t\<close>: control reaches a statement \<^verbatim>\<open>JLOG_FATAL << t\<close>. The logger's destructor
  is not part of the sources, so the model says nothing about what follows such a statement: it
  stops there. \<open>Undefined t\<close>: the C++ standard gives the execution no meaning
  (for example a dereferenced \<^verbatim>\<open>end()\<close> iterator). \<open>Thrown t\<close>: a library function throws.
\<close>

datatype fault = Fatal string | Undefined string | Thrown string

type_synonym 'a outcome = "fault + 'a"

abbreviation fatal :: "string \<Rightarrow> 'a outcome" where
  "fatal t \<equiv> Inl (Fatal t)"

abbreviation undefined_behaviour :: "string \<Rightarrow> 'a outcome" where
  "undefined_behaviour t \<equiv> Inl (Undefined t)"

named_theorems outcome_simps "sequencing of computations that may stop"
named_theorems outcome_elims "inversion of a sequence that did not stop"

definition obind :: "'a outcome \<Rightarrow> ('a \<Rightarrow> 'b outcome) \<Rightarrow> 'b outcome" where
  "obind m k = (case m of Inl f \<Rightarrow> Inl f | Inr x \<Rightarrow> k x)"

lemma obind_Inl [simp, outcome_simps]: "obind (Inl f) k = Inl f"
  by (simp add: obind_def)

lemma obind_Inr [simp, outcome_simps]: "obind (Inr x) k = k x"
  by (simp add: obind_def)

lemma obind_eq_Inr_iff [outcome_simps]:
  "obind m k = Inr y \<longleftrightarrow> (\<exists>x. m = Inr x \<and> k x = Inr y)"
  by (cases m) auto

lemma obind_eq_Inl_iff [outcome_simps]:
  "obind m k = Inl f \<longleftrightarrow> m = Inl f \<or> (\<exists>x. m = Inr x \<and> k x = Inl f)"
  by (cases m) auto

lemma obind_InrE [elim!, outcome_elims]:
  assumes "obind m k = Inr y"
  obtains x where "m = Inr x" "k x = Inr y"
  using assms by (auto simp: obind_eq_Inr_iff)

lemma obind_assoc: "obind (obind m k) l = obind m (\<lambda>x. obind (k x) l)"
  by (cases m) auto

lemma obind_cong [fundef_cong]:
  assumes "m = m'" and "\<And>x. m' = Inr x \<Longrightarrow> k x = k' x"
  shows "obind m k = obind m' k'"
  using assms by (cases m') auto

section \<open>The range-for loop\<close>

text \<open>\<open>ofold f xs s\<close>: run the loop body \<open>f\<close> for each element, stopping at the first fault.\<close>

fun ofold :: "('a \<Rightarrow> 's \<Rightarrow> 's outcome) \<Rightarrow> 'a list \<Rightarrow> 's \<Rightarrow> 's outcome" where
  "ofold f [] s = Inr s"
| "ofold f (x # xs) s = obind (f x s) (ofold f xs)"

lemma ofold_append: "ofold f (xs @ ys) s = obind (ofold f xs s) (ofold f ys)"
  by (induction xs arbitrary: s) (auto simp: obind_assoc intro!: obind_cong)

lemma ofold_snoc: "ofold f (xs @ [x]) s = obind (ofold f xs s) (f x)"
  by (cases "ofold f xs s") (auto simp: ofold_append obind_def split: sum.splits)

text \<open>Invariants of the loop body are invariants of the loop.\<close>

lemma ofold_invariant:
  assumes "ofold f xs s = Inr t" and "I s"
    and "\<And>x s s'. x \<in> set xs \<Longrightarrow> I s \<Longrightarrow> f x s = Inr s' \<Longrightarrow> I s'"
  shows "I t"
  using assms
proof (induction xs arbitrary: s)
  case (Cons x xs)
  from Cons.prems(1) obtain s' where s': "f x s = Inr s'" "ofold f xs s' = Inr t"
    by auto
  from Cons.prems(2,3) s'(1) have "I s'"
    by simp blast
  with s'(2) Cons.prems(3) show ?case
    by (auto intro: Cons.IH)
qed simp

text \<open>
  A loop whose body is simulated by a step \<open>g\<close> under the abstraction \<open>a\<close> is simulated by the
  fold of \<open>g\<close>.
\<close>

lemma ofold_simulates:
  assumes "ofold f xs s = Inr t"
    and "\<And>x s s'. x \<in> set xs \<Longrightarrow> f x s = Inr s' \<Longrightarrow> a s' = g x (a s)"
  shows "a t = fold g xs (a s)"
  using assms by (induction xs arbitrary: s) (auto, metis)

text \<open>A quantity that no iteration changes is unchanged by the loop.\<close>

lemma ofold_unchanged:
  assumes "ofold f xs s = Inr t" and "\<And>x s s'. f x s = Inr s' \<Longrightarrow> a s' = a s"
  shows "a t = a s"
  using assms by (induction xs arbitrary: s) auto

text \<open>The loop does not stop when no iteration stops.\<close>

lemma ofold_succeeds:
  assumes "I s"
    and "\<And>x s. x \<in> set xs \<Longrightarrow> I s \<Longrightarrow> \<exists>s'. f x s = Inr s' \<and> I s'"
  shows "\<exists>t. ofold f xs s = Inr t \<and> I t"
  using assms by (induction xs arbitrary: s) (simp, fastforce)

end
