(* ===== verification/Messages.thy ===== *)
theory Messages
  imports Jkv_Prelude
begin

text \<open>
  The protobuf messages of \<^verbatim>\<open>src/pb\<close> that the server exchanges and stores, as records and
  datatypes. A singular sub-message is an option when the code depends on its presence, and a
  reader accessor returns the default instance when it is absent, as the generated getters do.
  The enumerations of proto3 are open: a field of an enumeration type can hold any 32-bit number,
  so each enumeration has a last constructor for the numbers without a name.
  Serialisation is generated code and is a parameter of the components that use it.
\<close>

section \<open>kv\_op.proto\<close>

datatype CmdType = kInvalid | kGet | kPut | kDel | CmdType_unnamed int

record GetReq =
  get_key :: bytes

record GetResp =
  get_value :: bytes

record PutReq =
  put_key :: bytes
  put_value :: bytes

datatype PutResp = PutResp

record DelReq =
  del_key :: bytes

datatype DelResp = DelResp

record KvReq =
  cmd_type :: CmdType
  get_req_opt :: "GetReq option"
  put_req_opt :: "PutReq option"
  del_req_opt :: "DelReq option"

record KvResp =
  resp_cmd_type :: CmdType
  rejected :: bool
  get_resp_opt :: "GetResp option"
  put_resp_opt :: "PutResp option"
  del_resp_opt :: "DelResp option"

definition default_KvReq :: KvReq where
  "default_KvReq = \<lparr>cmd_type = kInvalid, get_req_opt = None, put_req_opt = None, del_req_opt = None\<rparr>"

definition default_KvResp :: KvResp where
  "default_KvResp = \<lparr>resp_cmd_type = kInvalid, rejected = False, get_resp_opt = None,
     put_resp_opt = None, del_resp_opt = None\<rparr>"

definition get_req :: "KvReq \<Rightarrow> GetReq" where
  "get_req r = (case get_req_opt r of None \<Rightarrow> \<lparr>get_key = []\<rparr> | Some g \<Rightarrow> g)"

definition put_req :: "KvReq \<Rightarrow> PutReq" where
  "put_req r = (case put_req_opt r of None \<Rightarrow> \<lparr>put_key = [], put_value = []\<rparr> | Some g \<Rightarrow> g)"

definition del_req :: "KvReq \<Rightarrow> DelReq" where
  "del_req r = (case del_req_opt r of None \<Rightarrow> \<lparr>del_key = []\<rparr> | Some g \<Rightarrow> g)"

section \<open>meta.proto, eraft.proto, errnum.proto, raft\_msg.proto\<close>

record PeerMeta =
  meta_host_id :: u64
  meta_peer_id :: u64

datatype EntryType = kEntryNormal | kEntryConfChange | EntryType_unnamed int

record Entry =
  entry_term :: u64
  entry_index :: u64
  entry_type :: EntryType
  entry_data :: bytes

record ConfState =
  voters :: "u64 list"
  learners :: "u64 list"
  voters_outgoing :: "u64 list"
  learners_next :: "u64 list"
  auto_leave :: bool

record SnapshotMetadata =
  conf_state :: ConfState
  snap_index :: u64
  snap_term :: u64

record Snapshot =
  snap_data :: bytes
  metadata :: SnapshotMetadata

datatype MessageType =
    kMsgHup | kMsgBeat | kMsgProp | kMsgApp | kMsgAppResp | kMsgVote | kMsgVoteResp | kMsgSnap
  | kMsgHeartbeat | kMsgHeartbeatResp | kMsgUnreachable | kMsgSnapStatus | kMsgCheckQuorum
  | kMsgTransferLeader | kMsgTimeoutNow | kMsgReadIndex | kMsgReadIndexResp | kMsgPreVote
  | kMsgPreVoteResp | MessageType_unnamed int

record Message =
  msg_type :: MessageType
  msg_to :: u64
  msg_from :: u64
  msg_term :: u64
  log_term :: u64
  msg_index :: u64
  msg_entries :: "Entry list"
  msg_commit :: u64
  msg_snapshot :: "Snapshot option"
  msg_reject :: bool
  reject_hint :: u64
  msg_context :: bytes

datatype ErrNum =
    kOk | kErrCompacted | kErrSnapOutOfData | kErrUnavailable
  | kErrSnapshotTemporarilyUnavailable | kErrSerializeFail | kErrProposalDropped
  | kErrStepLocalMsg | kErrStepPeerNotFound | ErrNum_unnamed int

record RaftMsgReq =
  from_peer :: PeerMeta
  to_peer :: PeerMeta
  raft_msg :: Message

end
