(* ===== verification/Closures.thy ===== *)
theory Closures
  imports Messages "HOL-Library.Multiset"
begin

text \<open>
  Response objects and completion closures of the RPC layer, and the guard
  \<^verbatim>\<open>jrpc::ClosureGuard\<close> (net/rpc/closure\_guard.h). Response objects live in a store
  indexed by their address, because a proposal holds a pointer to the response it will fill long
  after the request handler returned. What \<^verbatim>\<open>Closure::Run\<close> does is decided by the RPC
  layer, whose sources are not part of the repository: the model records that the closure ran and
  the contents of the response store at that moment, which is all the closure can read of them.
\<close>

section \<open>Lists as multisets\<close>

lemma distinct_submset:
  assumes "mset xs \<subseteq># mset ys" and "distinct ys"
  shows "distinct xs"
proof -
  obtain zs where "mset ys = mset xs + mset zs"
    using assms(1) by (metis ex_mset subset_mset.add_diff_inverse)
  then have "mset ys = mset (xs @ zs)"
    by simp
  with assms(2) have "distinct (xs @ zs)"
    by (metis mset_eq_imp_distinct_iff)
  then show ?thesis
    by simp
qed

section \<open>The response store and the run log\<close>

type_synonym resp_ptr = nat
type_synonym closure_ptr = nat

record replies =
  resps :: "resp_ptr \<Rightarrow> KvResp"
  runs :: "(closure_ptr \<times> (resp_ptr \<Rightarrow> KvResp)) list"

named_theorems reply_simps "effect of the operations on responses and closures"

definition set_rejected :: "resp_ptr \<Rightarrow> 'z replies_scheme \<Rightarrow> 'z replies_scheme" where
  "set_rejected r s = s\<lparr>resps := (resps s)(r := (resps s r)\<lparr>rejected := True\<rparr>)\<rparr>"

definition set_get_value :: "resp_ptr \<Rightarrow> bytes \<Rightarrow> 'z replies_scheme \<Rightarrow> 'z replies_scheme" where
  "set_get_value r v s =
     s\<lparr>resps := (resps s)(r := (resps s r)\<lparr>get_resp_opt := Some \<lparr>get_value = v\<rparr>\<rparr>)\<rparr>"

definition Run :: "closure_ptr \<Rightarrow> 'z replies_scheme \<Rightarrow> 'z replies_scheme" where
  "Run d s = s\<lparr>runs := runs s @ [(d, resps s)]\<rparr>"

text \<open>The closures that have run, in order.\<close>

definition ran :: "'z replies_scheme \<Rightarrow> closure_ptr list" where
  "ran s = map fst (runs s)"

lemma resps_set_rejected [simp, reply_simps]:
  "resps (set_rejected r s) = (resps s)(r := (resps s r)\<lparr>rejected := True\<rparr>)"
  by (simp add: set_rejected_def)

lemma resps_set_get_value [simp, reply_simps]:
  "resps (set_get_value r v s) = (resps s)(r := (resps s r)\<lparr>get_resp_opt := Some \<lparr>get_value = v\<rparr>\<rparr>)"
  by (simp add: set_get_value_def)

lemma resps_Run [simp, reply_simps]: "resps (Run d s) = resps s"
  by (simp add: Run_def)

lemma runs_set_rejected [simp, reply_simps]: "runs (set_rejected r s) = runs s"
  by (simp add: set_rejected_def)

lemma runs_set_get_value [simp, reply_simps]: "runs (set_get_value r v s) = runs s"
  by (simp add: set_get_value_def)

lemma runs_Run [simp, reply_simps]: "runs (Run d s) = runs s @ [(d, resps s)]"
  by (simp add: Run_def)

lemma ran_set_rejected [simp, reply_simps]: "ran (set_rejected r s) = ran s"
  by (simp add: ran_def)

lemma ran_set_get_value [simp, reply_simps]: "ran (set_get_value r v s) = ran s"
  by (simp add: ran_def)

lemma ran_Run [simp, reply_simps]: "ran (Run d s) = ran s @ [d]"
  by (simp add: ran_def)

lemma more_replies_ops [simp, reply_simps]:
  "replies.more (set_rejected r s) = replies.more s"
  "replies.more (set_get_value r v s) = replies.more s"
  "replies.more (Run d s) = replies.more s"
  by (simp_all add: set_rejected_def set_get_value_def Run_def)

section \<open>ClosureGuard\<close>

text \<open>The guard owns at most one closure; \<open>None\<close> is \<^verbatim>\<open>nullptr\<close>.\<close>

type_synonym ClosureGuard = "closure_ptr option"

definition guard_default :: ClosureGuard where
  "guard_default = None"

definition guard_new :: "closure_ptr option \<Rightarrow> ClosureGuard" where
  "guard_new d = d"

definition guard_destroy :: "ClosureGuard \<Rightarrow> 'z replies_scheme \<Rightarrow> 'z replies_scheme" where
  "guard_destroy g s = (case g of None \<Rightarrow> s | Some d \<Rightarrow> Run d s)"

definition guard_reset ::
  "closure_ptr option \<Rightarrow> ClosureGuard \<Rightarrow> 'z replies_scheme \<Rightarrow> ClosureGuard \<times> 'z replies_scheme" where
  "guard_reset d g s = (d, case g of None \<Rightarrow> s | Some d' \<Rightarrow> Run d' s)"

definition guard_release :: "ClosureGuard \<Rightarrow> closure_ptr option \<times> ClosureGuard" where
  "guard_release g = (g, None)"

definition guard_empty :: "ClosureGuard \<Rightarrow> bool" where
  "guard_empty g \<longleftrightarrow> g = None"

definition guard_swap :: "ClosureGuard \<Rightarrow> ClosureGuard \<Rightarrow> ClosureGuard \<times> ClosureGuard" where
  "guard_swap g h = (h, g)"

text \<open>
  A scope that owns a guard: a sequence of \<^verbatim>\<open>reset\<close> and \<^verbatim>\<open>release\<close> calls, then the
  destructor at the closing brace. The result is the list of released closures and the final state.
\<close>

datatype guard_op = Reset "closure_ptr option" | Release

fun guard_scope ::
  "ClosureGuard \<Rightarrow> guard_op list \<Rightarrow> 'z replies_scheme \<Rightarrow> closure_ptr list \<times> 'z replies_scheme" where
  "guard_scope g [] s = ([], guard_destroy g s)"
| "guard_scope g (Reset d # ops) s = (let (g', s') = guard_reset d g s in guard_scope g' ops s')"
| "guard_scope g (Release # ops) s =
     (let (d, g') = guard_release g; (rel, s') = guard_scope g' ops s
      in (case d of None \<Rightarrow> rel | Some c \<Rightarrow> c # rel, s'))"

fun guard_given :: "guard_op list \<Rightarrow> closure_ptr list" where
  "guard_given [] = []"
| "guard_given (Reset (Some d) # ops) = d # guard_given ops"
| "guard_given (Reset None # ops) = guard_given ops"
| "guard_given (Release # ops) = guard_given ops"

lemmas guard_defs = guard_destroy_def guard_reset_def guard_release_def guard_new_def
  guard_empty_def guard_swap_def guard_default_def

section \<open>Properties\<close>

text \<open>
  A \<^verbatim>\<open>ClosureGuard\<close> runs every closure it is given exactly once unless it is released.
  Over any scope, whatever its sequence of \<^verbatim>\<open>reset\<close> and \<^verbatim>\<open>release\<close> calls, the closures
  that have run by its end together with the released ones are, counted with multiplicity, those that
  had run before, the one the guard held and the ones it was given.
\<close>

theorem ClosureGuard_conserves:
  assumes "guard_scope g ops s = (rel, s')"
  shows "mset (ran s') + mset rel = mset (ran s) + mset (case g of None \<Rightarrow> [] | Some d \<Rightarrow> [d])
    + mset (guard_given ops)"
  using assms
proof (induction g ops s arbitrary: rel s' rule: guard_scope.induct)
  case (2 g d ops s)
  then show ?case
    by (cases d; cases g) (fastforce simp: guard_defs)+
next
  case (3 g ops s)
  then show ?case
    by (cases g) (fastforce simp: guard_defs split: prod.splits)+
qed (auto simp: guard_defs split: option.splits)

theorem ClosureGuard_conserves_witness:
  "mset (ran (Run 3 (Run 1 \<lparr>resps = \<lambda>_. default_KvResp, runs = []\<rparr>))) + {#2#} = {#1#} + {#2, 3#}"
proof -
  have "guard_scope (Some 1) [Reset (Some 2), Release, Reset (Some 3)] \<lparr>resps = \<lambda>_. default_KvResp, runs = []\<rparr>
      = ([2], Run 3 (Run 1 \<lparr>resps = \<lambda>_. default_KvResp, runs = []\<rparr>))"
    by (simp add: guard_defs)
  from ClosureGuard_conserves [OF this] show ?thesis
    by (simp add: ran_def)
qed

end
