(* ===== verification/Proposals.thy ===== *)
theory Proposals
  imports Closures
begin

text \<open>
  The queue of pending proposals of a peer (\<^verbatim>\<open>Proposal\<close> of peer.h, \<^verbatim>\<open>GetProposal\<close>
  and \<^verbatim>\<open>CallbackAll\<close> of peer.cc). The queue is a \<^verbatim>\<open>std::deque\<close>, here a list with
  its front first. The lemmas show that \<^verbatim>\<open>GetProposal\<close> is a search in the
  lexicographic order of (term, index), and that both operations drain the queue from its front
  without losing or duplicating a proposal.
\<close>

section \<open>Proposals\<close>

record Proposal =
  p_index :: u64
  p_term :: u64
  p_resp :: resp_ptr
  p_done :: closure_ptr

definition new_Proposal :: "u64 \<Rightarrow> u64 \<Rightarrow> resp_ptr \<Rightarrow> closure_ptr \<Rightarrow> Proposal" where
  "new_Proposal i t r d = \<lparr>p_index = i, p_term = t, p_resp = r, p_done = d\<rparr>"

text \<open>The statement pair \<^verbatim>\<open>p->resp->set_rejected(true); p->done->Run();\<close>.\<close>

definition reject :: "Proposal \<Rightarrow> 'z replies_scheme \<Rightarrow> 'z replies_scheme" where
  "reject p s = Run (p_done p) (set_rejected (p_resp p) s)"

text \<open>
  The while loop of \<^verbatim>\<open>Peer::GetProposal\<close>: the proposal found, the queue and the replies
  afterwards. In each branch the last of the three comparisons is implied by the failure of the
  other two.
\<close>

fun GetProposal :: "u64 \<Rightarrow> u64 \<Rightarrow> Proposal list \<Rightarrow> 'z replies_scheme
    \<Rightarrow> Proposal option \<times> Proposal list \<times> 'z replies_scheme" where
  "GetProposal idx trm [] s = (None, [], s)"
| "GetProposal idx trm (p # ps) s =
     (if trm = p_term p then
        (if idx = p_index p then (Some p, ps, s)
         else if idx < p_index p then (None, p # ps, s)
         else GetProposal idx trm ps (reject p s))
      else
        (if trm < p_term p then (None, p # ps, s)
         else GetProposal idx trm ps (reject p s)))"

definition CallbackAll :: "Proposal list \<Rightarrow> 'z replies_scheme \<Rightarrow> Proposal list \<times> 'z replies_scheme" where
  "CallbackAll ps s = ([], fold reject ps s)"

section \<open>Effect of rejecting\<close>

lemma ran_reject [simp, reply_simps]: "ran (reject p s) = ran s @ [p_done p]"
  by (simp add: reject_def)

lemma more_reject [simp, reply_simps]: "replies.more (reject p s) = replies.more s"
  by (simp add: reject_def)

lemma ran_fold_reject [simp, reply_simps]: "ran (fold reject ps s) = ran s @ map p_done ps"
  by (induction ps arbitrary: s) auto

lemma more_fold_reject [simp, reply_simps]:
  "replies.more (fold reject ps s) = replies.more s"
  by (induction ps arbitrary: s) auto

lemma resps_reject [simp, reply_simps]:
  "resps (reject p s) = (resps s)(p_resp p := (resps s (p_resp p))\<lparr>rejected := True\<rparr>)"
  by (simp add: reject_def)

lemma rejected_stays:
  "rejected (resps s r) \<Longrightarrow> rejected (resps (fold reject ps s) r)"
  by (induction ps arbitrary: s) auto

text \<open>Every run that a series of rejections adds reports a rejected response.\<close>

lemma fold_reject_runs:
  "\<exists>hs. runs (fold reject ps s) = runs s @ zip (map p_done ps) hs \<and> length hs = length ps \<and>
     (\<forall>i<length ps. rejected ((hs ! i) (p_resp (ps ! i))))"
proof (induction ps arbitrary: s)
  case (Cons p ps)
  obtain hs where hs: "runs (fold reject ps (reject p s)) = runs (reject p s) @ zip (map p_done ps) hs"
      "length hs = length ps" "\<forall>i<length ps. rejected ((hs ! i) (p_resp (ps ! i)))"
    using Cons.IH [of "reject p s"] by blast
  let ?h = "resps (set_rejected (p_resp p) s)"
  have "runs (fold reject (p # ps) s) = runs s @ zip (map p_done (p # ps)) (?h # hs)"
    by (simp add: hs(1)) (simp add: reject_def)
  moreover have "\<forall>i<length (p # ps). rejected (((?h # hs) ! i) (p_resp ((p # ps) ! i)))"
    using hs(3) by (auto simp: less_Suc_eq_0_disj)
  ultimately show ?case
    using hs(2) by (metis length_Cons)
qed simp

section \<open>GetProposal is a lexicographic search\<close>

definition older :: "u64 \<Rightarrow> u64 \<Rightarrow> Proposal \<Rightarrow> bool" where
  "older idx trm p \<longleftrightarrow> p_term p < trm \<or> p_term p = trm \<and> p_index p < idx"

definition matches :: "u64 \<Rightarrow> u64 \<Rightarrow> Proposal \<Rightarrow> bool" where
  "matches idx trm p \<longleftrightarrow> p_term p = trm \<and> p_index p = idx"

text \<open>The specification: drop the older front of the queue, then test the head.\<close>

definition take_match :: "u64 \<Rightarrow> u64 \<Rightarrow> Proposal list \<Rightarrow> Proposal option \<times> Proposal list" where
  "take_match idx trm q =
     (case q of p # ps \<Rightarrow> if matches idx trm p then (Some p, ps) else (None, q)
      | [] \<Rightarrow> (None, []))"

lemma GetProposal_spec:
  "GetProposal idx trm q s =
     (let (found, rest) = take_match idx trm (dropWhile (older idx trm) q)
      in (found, rest, fold reject (takeWhile (older idx trm) q) s))"
  by (induction idx trm q s rule: GetProposal.induct)
    (auto simp: take_match_def older_def matches_def)

text \<open>The proposals that one call removes: those it rejects and the one it returns.\<close>

definition taken :: "u64 \<Rightarrow> u64 \<Rightarrow> Proposal list \<Rightarrow> Proposal list" where
  "taken idx trm q = takeWhile (older idx trm) q
     @ (case fst (take_match idx trm (dropWhile (older idx trm) q)) of None \<Rightarrow> [] | Some p \<Rightarrow> [p])"

lemma take_match_append:
  "take_match idx trm q = (found, q') \<Longrightarrow> q = (case found of None \<Rightarrow> [] | Some p \<Rightarrow> [p]) @ q'"
  by (auto simp: take_match_def split: list.splits if_splits)

lemma taken_rest:
  assumes "GetProposal idx trm q s = (found, q', s')"
  shows "q = taken idx trm q @ q'"
proof -
  have "take_match idx trm (dropWhile (older idx trm) q) = (found, q')"
    using assms by (auto simp: GetProposal_spec split: prod.splits)
  from take_match_append [OF this] this show ?thesis
    by (metis append.assoc fst_conv taken_def takeWhile_dropWhile_id)
qed

lemma take_match_found:
  "take_match idx trm q = (Some p, q') \<Longrightarrow> matches idx trm p"
  by (auto simp: take_match_def split: list.splits if_splits)

section \<open>Queues in proposal order\<close>

text \<open>The order in which a leader creates proposals: by term, then by index.\<close>

definition before :: "Proposal \<Rightarrow> Proposal \<Rightarrow> bool" where
  "before p q \<longleftrightarrow> p_term p < p_term q \<or> p_term p = p_term q \<and> p_index p < p_index q"

definition ordered :: "Proposal list \<Rightarrow> bool" where
  "ordered q \<longleftrightarrow> sorted_wrt before q"

lemma before_trans: "before p q \<Longrightarrow> before q r \<Longrightarrow> before p r"
  by (auto simp: before_def)

lemma before_irrefl [simp]: "\<not> before p p"
  by (auto simp: before_def)

lemma ordered_Nil [simp]: "ordered []"
  by (simp add: ordered_def)

lemma ordered_append_iff:
  "ordered (xs @ ys) \<longleftrightarrow> ordered xs \<and> ordered ys \<and> (\<forall>x\<in>set xs. \<forall>y\<in>set ys. before x y)"
  by (simp add: ordered_def sorted_wrt_append)

lemma ordered_snoc: "ordered q \<Longrightarrow> (\<And>x. x \<in> set q \<Longrightarrow> before x p) \<Longrightarrow> ordered (q @ [p])"
  by (simp add: ordered_def sorted_wrt_append)

lemma ordered_GetProposal:
  assumes "GetProposal idx trm q s = (found, q', s')" and "ordered q"
  shows "ordered q'"
  using assms(2) taken_rest [OF assms(1)] by (metis ordered_append_iff)

text \<open>In an ordered queue the older proposals are exactly a front part of it.\<close>

lemma older_before: "before p q \<Longrightarrow> older idx trm q \<Longrightarrow> older idx trm p"
  by (auto simp: before_def older_def)

lemma ordered_older_filter:
  assumes "ordered q"
  shows "takeWhile (older idx trm) q = filter (older idx trm) q \<and>
    dropWhile (older idx trm) q = filter (\<lambda>p. \<not> older idx trm p) q"
  using assms
proof (induction q)
  case (Cons p q)
  then have IH: "takeWhile (older idx trm) q = filter (older idx trm) q"
      "dropWhile (older idx trm) q = filter (\<lambda>p. \<not> older idx trm p) q"
    and after: "\<forall>x\<in>set q. before p x"
    by (auto simp: ordered_def)
  show ?case
  proof (cases "older idx trm p")
    case False
    with after have "\<forall>x\<in>set q. \<not> older idx trm x"
      by (blast dest: older_before)
    then have "filter (older idx trm) q = []" "filter (\<lambda>p. \<not> older idx trm p) q = q"
      by simp_all
    with False show ?thesis
      by simp
  qed (use IH in simp)
qed simp

lemma matches_not_before: "matches idx trm p \<Longrightarrow> matches idx trm q \<Longrightarrow> \<not> before p q"
  by (simp add: matches_def before_def)

lemma ordered_matches_unique:
  "ordered q \<Longrightarrow> p \<in> set q \<Longrightarrow> p' \<in> set q \<Longrightarrow> matches idx trm p \<Longrightarrow> matches idx trm p' \<Longrightarrow> p = p'"
  by (induction q) (auto simp: ordered_def matches_not_before)

lemma matches_not_older: "matches idx trm p \<Longrightarrow> \<not> older idx trm p"
  by (auto simp: matches_def older_def)

text \<open>In an ordered queue the search finds the matching proposal wherever it stands.\<close>

lemma ordered_take_match:
  assumes "ordered q" and "p \<in> set q" and "matches idx trm p"
  shows "\<exists>q'. take_match idx trm (dropWhile (older idx trm) q) = (Some p, q')"
proof -
  have rest: "dropWhile (older idx trm) q = filter (\<lambda>x. \<not> older idx trm x) q" (is "_ = ?r")
    using ordered_older_filter [OF assms(1)] by blast
  have ord: "ordered ?r"
    using assms(1) by (simp add: ordered_def sorted_wrt_filter)
  have p: "p \<in> set ?r"
    using assms(2,3) by (simp add: matches_not_older)
  then obtain y ys where ys: "?r = y # ys"
    by (cases ?r) auto
  then have "y \<in> set ?r"
    by simp
  then have y: "\<not> older idx trm y"
    by simp
  have "\<not> before y p"
    using y assms(3) by (auto simp: before_def matches_def older_def)
  with p ord ys have "y = p"
    by (auto simp: ordered_def)
  with ys rest assms(3) show ?thesis
    by (simp add: take_match_def)
qed

lemma take_match_filter:
  assumes "ordered q"
  shows "take_match idx trm (filter (\<lambda>p. \<not> older idx trm p) q) =
    (find (matches idx trm) q, filter (\<lambda>p. \<not> older idx trm p \<and> \<not> matches idx trm p) q)"
  using assms
proof (induction q)
  case (Cons p q)
  then have IH: "take_match idx trm (filter (\<lambda>p. \<not> older idx trm p) q) =
      (find (matches idx trm) q, filter (\<lambda>p. \<not> older idx trm p \<and> \<not> matches idx trm p) q)"
    and after: "\<forall>x\<in>set q. before p x"
    by (auto simp: ordered_def)
  consider "older idx trm p" | "matches idx trm p" | "\<not> older idx trm p" "\<not> matches idx trm p"
    by blast
  then show ?case
  proof cases
    case 1
    with IH show ?thesis
      by (auto simp: matches_not_older)
  next
    case 2
    with after have "\<forall>x\<in>set q. \<not> older idx trm x \<and> \<not> matches idx trm x"
      by (blast dest: older_before matches_not_older matches_not_before)
    with 2 show ?thesis
      by (simp add: take_match_def matches_not_older)
  next
    case 3
    then have "\<forall>x\<in>set q. \<not> older idx trm x \<and> \<not> matches idx trm x"
      using after by (auto simp: older_def matches_def before_def)
    moreover from this have "find (matches idx trm) q = None"
      by (simp add: find_None_iff)
    ultimately show ?thesis
      using 3 by (simp add: take_match_def)
  qed
qed (simp add: take_match_def)

section \<open>Properties\<close>

text \<open>
  C15: what \<^verbatim>\<open>GetProposal\<close> does to a queue in log order. It returns the proposal with exactly
  the given index and term if the queue has one and no proposal otherwise; it answers exactly the
  proposals that lie before that position, in queue order and as rejected; and it keeps exactly those
  that lie after it.
\<close>

theorem GetProposal_exact:
  assumes "ordered q"
  shows "GetProposal idx trm q s =
    (find (matches idx trm) q, filter (\<lambda>p. \<not> older idx trm p \<and> \<not> matches idx trm p) q,
     fold reject (filter (older idx trm) q) s)"
  using ordered_older_filter [OF assms, of idx trm] take_match_filter [OF assms, of idx trm]
  by (simp add: GetProposal_spec)

theorem GetProposal_exact_witness:
  "GetProposal 5 2 [new_Proposal 9 1 10 20, new_Proposal 5 2 11 21, new_Proposal 6 2 12 22]
     \<lparr>resps = \<lambda>_. default_KvResp, runs = []\<rparr> =
   (Some (new_Proposal 5 2 11 21), [new_Proposal 6 2 12 22],
    reject (new_Proposal 9 1 10 20) \<lparr>resps = \<lambda>_. default_KvResp, runs = []\<rparr>)"
  by (subst GetProposal_exact) (simp_all add: ordered_def before_def matches_def older_def new_Proposal_def)

text \<open>
  \<^verbatim>\<open>GetProposal\<close> loses no proposal and answers none twice. On any queue, ordered or not,
  the proposals it answers, the one it returns and those it keeps make up the queue, in this order;
  the closures that ran are those of the answered proposals, and a returned proposal has exactly
  the index and term that were asked for.
\<close>

theorem GetProposal_conserves:
  assumes "GetProposal idx trm q s = (found, q', s')"
  shows "\<exists>answered. q = answered @ (case found of None \<Rightarrow> [] | Some p \<Rightarrow> [p]) @ q'
    \<and> ran s' = ran s @ map p_done answered
    \<and> (\<forall>p\<in>set answered. p_term p < trm \<or> p_term p = trm \<and> p_index p < idx)
    \<and> (\<forall>p. found = Some p \<longrightarrow> p_index p = idx \<and> p_term p = trm)"
proof -
  have m: "take_match idx trm (dropWhile (older idx trm) q) = (found, q')"
    and s': "s' = fold reject (takeWhile (older idx trm) q) s"
    using assms by (auto simp: GetProposal_spec split: prod.splits)
  have "q = takeWhile (older idx trm) q @ (case found of None \<Rightarrow> [] | Some p \<Rightarrow> [p]) @ q'"
    using take_match_append [OF m] by (metis takeWhile_dropWhile_id)
  moreover have "\<forall>p\<in>set (takeWhile (older idx trm) q). p_term p < trm \<or> p_term p = trm \<and> p_index p < idx"
    by (auto dest!: set_takeWhileD simp: older_def)
  moreover have "\<forall>p. found = Some p \<longrightarrow> p_index p = idx \<and> p_term p = trm"
    using m by (auto dest!: take_match_found simp: matches_def)
  ultimately show ?thesis
    using s' by (intro exI [of _ "takeWhile (older idx trm) q"]) simp
qed

theorem GetProposal_conserves_witness:
  "\<exists>answered. [new_Proposal 9 1 10 20, new_Proposal 5 2 11 21] = answered @ [new_Proposal 5 2 11 21] @ []
     \<and> ran (reject (new_Proposal 9 1 10 20) \<lparr>resps = \<lambda>_. default_KvResp, runs = []\<rparr>) = map p_done answered"
proof -
  have "GetProposal 5 2 [new_Proposal 9 1 10 20, new_Proposal 5 2 11 21] \<lparr>resps = \<lambda>_. default_KvResp, runs = []\<rparr> =
      (Some (new_Proposal 5 2 11 21), [], reject (new_Proposal 9 1 10 20) \<lparr>resps = \<lambda>_. default_KvResp, runs = []\<rparr>)"
    by (simp add: new_Proposal_def)
  from GetProposal_conserves [OF this] show ?thesis
    by (simp add: ran_def)
qed

end
