(* ===== verification/Disk_Storage.thy ===== *)
theory Disk_Storage
  imports Jkv_Prelude
begin

text \<open>
  \<^verbatim>\<open>DiskStorage\<close> (storage/disk\_storage.h, storage/disk\_storage.cc), the key-value store
  of a peer. LevelDB is not part of the sources: a database is a value of an arbitrary type and
  its operations are the record \<open>leveldb\<close>, an argument of every definition. What the code
  relies on is the documented behaviour of LevelDB, stated as \<open>leveldb_contract\<close>: an
  operation whose status is ok has the effect it is named after, and reading an absent key is not
  ok. Any operation may fail with another status (an I/O error); \<open>leveldb_reliable\<close> says
  that none does.
\<close>

section \<open>LevelDB as a parameter\<close>

datatype Status = StatusOk | StatusErr string

record 'db leveldb =
  db_Open :: "bool \<Rightarrow> string \<Rightarrow> Status \<times> 'db"
  db_Get :: "'db \<Rightarrow> bytes \<Rightarrow> Status \<times> bytes"
  db_Put :: "'db \<Rightarrow> bytes \<Rightarrow> bytes \<Rightarrow> Status \<times> 'db"
  db_Delete :: "'db \<Rightarrow> bytes \<Rightarrow> Status \<times> 'db"

definition leveldb_contract :: "'db leveldb \<Rightarrow> ('db \<Rightarrow> bytes \<rightharpoonup> bytes) \<Rightarrow> bool" where
  "leveldb_contract ldb view \<longleftrightarrow>
     (\<forall>d k v. db_Get ldb d k = (StatusOk, v) \<longrightarrow> view d k = Some v) \<and>
     (\<forall>d k v d'. db_Put ldb d k v = (StatusOk, d') \<longrightarrow> view d' = (view d)(k \<mapsto> v)) \<and>
     (\<forall>d k d'. db_Delete ldb d k = (StatusOk, d') \<longrightarrow> view d' = (view d)(k := None))"

definition leveldb_reliable :: "'db leveldb \<Rightarrow> ('db \<Rightarrow> bytes \<rightharpoonup> bytes) \<Rightarrow> bool" where
  "leveldb_reliable ldb view \<longleftrightarrow>
     (\<forall>d k v. view d k = Some v \<longrightarrow> fst (db_Get ldb d k) = StatusOk) \<and>
     (\<forall>d k v. fst (db_Put ldb d k v) = StatusOk) \<and>
     (\<forall>d k. fst (db_Delete ldb d k) = StatusOk)"

section \<open>The class DiskStorage\<close>

record 'db DiskStorage =
  db_path :: string
  db :: 'db

text \<open>
  The functions of \<^verbatim>\<open>boost::filesystem\<close> that the constructor calls; both throw when the
  system reports an error.
\<close>

record filesystem =
  fs_exists :: "string \<Rightarrow> bool outcome"
  fs_create_directories :: "string \<Rightarrow> unit outcome"

definition new_DiskStorage :: "'db leveldb \<Rightarrow> filesystem \<Rightarrow> string \<Rightarrow> 'db DiskStorage outcome" where
  "new_DiskStorage ldb fs path =
     obind (fs_exists fs path) (\<lambda>found.
       obind (if \<not> found then fs_create_directories fs path else Inr ()) (\<lambda>_.
         case db_Open ldb True path of
           (StatusOk, d) \<Rightarrow> Inr \<lparr>db_path = path, db = d\<rparr>
         | (StatusErr e, d) \<Rightarrow> fatal (''can't open db, err_msg: '' @ e)))"

definition DiskStorage_Get :: "'db leveldb \<Rightarrow> 'db DiskStorage \<Rightarrow> bytes \<Rightarrow> bytes outcome" where
  "DiskStorage_Get ldb s key =
     (case db_Get ldb (db s) key of
        (StatusOk, val) \<Rightarrow> Inr val
      | (StatusErr e, val) \<Rightarrow> fatal (''can't get kv from db, err_msg: '' @ e))"

definition DiskStorage_Put ::
  "'db leveldb \<Rightarrow> 'db DiskStorage \<Rightarrow> bytes \<Rightarrow> bytes \<Rightarrow> 'db DiskStorage outcome" where
  "DiskStorage_Put ldb s key val =
     (case db_Put ldb (db s) key val of
        (StatusOk, d) \<Rightarrow> Inr (s\<lparr>db := d\<rparr>)
      | (StatusErr e, d) \<Rightarrow> fatal (''can't put kv to db, err_msg: '' @ e))"

definition DiskStorage_Del :: "'db leveldb \<Rightarrow> 'db DiskStorage \<Rightarrow> bytes \<Rightarrow> 'db DiskStorage outcome" where
  "DiskStorage_Del ldb s key =
     (case db_Delete ldb (db s) key of
        (StatusOk, d) \<Rightarrow> Inr (s\<lparr>db := d\<rparr>)
      | (StatusErr e, d) \<Rightarrow> fatal (''can't del kv from db, err_msg: '' @ e))"

lemmas DiskStorage_defs = DiskStorage_Get_def DiskStorage_Put_def DiskStorage_Del_def

section \<open>The interface a peer relies on\<close>

text \<open>The commands a peer issues and their effect on the contents of a store.\<close>

datatype store_op = SGet bytes | SPut bytes bytes | SDel bytes

fun op_effect :: "store_op \<Rightarrow> (bytes \<rightharpoonup> bytes) \<Rightarrow> (bytes \<rightharpoonup> bytes)" where
  "op_effect (SGet k) m = m"
| "op_effect (SPut k v) m = m(k \<mapsto> v)"
| "op_effect (SDel k) m = m(k := None)"

fun op_enabled :: "store_op \<Rightarrow> (bytes \<rightharpoonup> bytes) \<Rightarrow> bool" where
  "op_enabled (SGet k) m \<longleftrightarrow> m k \<noteq> None"
| "op_enabled (SPut k v) m \<longleftrightarrow> True"
| "op_enabled (SDel k) m \<longleftrightarrow> True"

locale kv_store =
  fixes get :: "'s \<Rightarrow> bytes \<Rightarrow> bytes outcome"
    and put :: "'s \<Rightarrow> bytes \<Rightarrow> bytes \<Rightarrow> 's outcome"
    and del :: "'s \<Rightarrow> bytes \<Rightarrow> 's outcome"
    and contents :: "'s \<Rightarrow> bytes \<rightharpoonup> bytes"
  assumes get_sound: "get s k = Inr v \<Longrightarrow> contents s k = Some v"
    and get_absent: "contents s k = None \<Longrightarrow> \<exists>e. get s k = fatal e"
    and put_contents: "put s k v = Inr s' \<Longrightarrow> contents s' = (contents s)(k \<mapsto> v)"
    and del_contents: "del s k = Inr s' \<Longrightarrow> contents s' = (contents s)(k := None)"
begin

definition exec_op :: "store_op \<Rightarrow> 's \<Rightarrow> 's outcome" where
  "exec_op c s = (case c of
     SGet k \<Rightarrow> obind (get s k) (\<lambda>_. Inr s) | SPut k v \<Rightarrow> put s k v | SDel k \<Rightarrow> del s k)"

lemma exec_op_contents: "exec_op c s = Inr s' \<Longrightarrow> contents s' = op_effect c (contents s)"
  by (cases c) (auto simp: exec_op_def put_contents del_contents)

lemma exec_op_enabled: "exec_op c s = Inr s' \<Longrightarrow> op_enabled c (contents s)"
  by (cases c) (auto simp: exec_op_def dest: get_sound)

lemma exec_ops_contents:
  "ofold exec_op cs s = Inr s' \<Longrightarrow> contents s' = fold op_effect cs (contents s)"
  by (rule ofold_simulates) (auto simp: exec_op_contents)

lemma get_after_put:
  "put s k v = Inr s' \<Longrightarrow> get s' k' = Inr w \<Longrightarrow> (if k' = k then w = v else contents s k' = Some w)"
  by (auto dest!: put_contents get_sound split: if_splits)

lemma get_after_del: "del s k = Inr s' \<Longrightarrow> \<exists>e. get s' k = fatal e"
  by (rule get_absent) (auto dest: del_contents)

end

text \<open>A store none of whose operations fails for an external reason.\<close>

locale reliable_kv_store = kv_store +
  assumes get_present: "contents s k = Some v \<Longrightarrow> get s k = Inr v"
    and put_returns: "\<exists>s'. put s k v = Inr s'"
    and del_returns: "\<exists>s'. del s k = Inr s'"
begin

lemma exec_op_returns: "op_enabled c (contents s) \<Longrightarrow> \<exists>s'. exec_op c s = Inr s'"
  using put_returns del_returns by (cases c) (auto simp: exec_op_def get_present)

lemma get_returns_iff: "(\<exists>v. get s k = Inr v) \<longleftrightarrow> contents s k \<noteq> None"
  using get_sound get_present by blast

end

section \<open>DiskStorage provides the interface\<close>

definition disk_contents :: "('db \<Rightarrow> bytes \<rightharpoonup> bytes) \<Rightarrow> 'db DiskStorage \<Rightarrow> bytes \<rightharpoonup> bytes" where
  "disk_contents view s = view (db s)"

lemma DiskStorage_kv_store:
  assumes "leveldb_contract ldb view"
  shows "kv_store (DiskStorage_Get ldb) (DiskStorage_Put ldb) (DiskStorage_Del ldb) (disk_contents view)"
proof
  fix s :: "'a DiskStorage" and k :: bytes
  assume "disk_contents view s k = None"
  with assms show "\<exists>e. DiskStorage_Get ldb s k = fatal e"
    by (cases "db_Get ldb (db s) k"; cases "fst (db_Get ldb (db s) k)")
      (auto simp: leveldb_contract_def disk_contents_def DiskStorage_defs)
qed (use assms in \<open>auto simp: leveldb_contract_def disk_contents_def DiskStorage_defs
       split: prod.splits Status.splits\<close>)

lemma DiskStorage_reliable_kv_store:
  assumes "leveldb_contract ldb view" and "leveldb_reliable ldb view"
  shows "reliable_kv_store (DiskStorage_Get ldb) (DiskStorage_Put ldb) (DiskStorage_Del ldb)
    (disk_contents view)"
proof -
  have s: "kv_store (DiskStorage_Get ldb) (DiskStorage_Put ldb) (DiskStorage_Del ldb) (disk_contents view)"
    by (rule DiskStorage_kv_store [OF assms(1)])
  show ?thesis
  proof (intro reliable_kv_store.intro reliable_kv_store_axioms.intro s)
    fix s :: "'a DiskStorage" and k v
    assume v: "disk_contents view s k = Some v"
    with assms(2) have "fst (db_Get ldb (db s) k) = StatusOk"
      by (auto simp: leveldb_reliable_def disk_contents_def)
    with v assms(1) show "DiskStorage_Get ldb s k = Inr v"
      by (cases "db_Get ldb (db s) k")
        (auto simp: leveldb_contract_def disk_contents_def DiskStorage_defs)
  next
    fix s :: "'a DiskStorage" and k v
    from assms(2) show "\<exists>s'. DiskStorage_Put ldb s k v = Inr s'" "\<exists>s'. DiskStorage_Del ldb s k = Inr s'"
      by (auto simp: leveldb_reliable_def DiskStorage_defs split: prod.splits Status.splits)
        (metis Status.distinct(1) fst_conv)+
  qed
qed

text \<open>The hypotheses about the database as contracts that give the ones of the store.\<close>

locale documented_leveldb =
  fixes ldb :: "'db leveldb" and view :: "'db \<Rightarrow> bytes \<rightharpoonup> bytes"
  assumes contract: "leveldb_contract ldb view"

sublocale documented_leveldb \<subseteq> disk: kv_store "DiskStorage_Get ldb" "DiskStorage_Put ldb"
    "DiskStorage_Del ldb" "disk_contents view"
  by (rule DiskStorage_kv_store [OF contract])

locale reliable_leveldb = documented_leveldb +
  assumes reliable: "leveldb_reliable ldb view"

sublocale reliable_leveldb \<subseteq> reliable_disk: reliable_kv_store "DiskStorage_Get ldb" "DiskStorage_Put ldb"
    "DiskStorage_Del ldb" "disk_contents view"
  by (rule DiskStorage_reliable_kv_store [OF contract reliable])

section \<open>An in-memory LevelDB\<close>

text \<open>A file system on which every directory exists.\<close>

definition demo_fs :: filesystem where
  "demo_fs = \<lparr>fs_exists = \<lambda>_. Inr True, fs_create_directories = \<lambda>_. Inr ()\<rparr>"

text \<open>
  A database as an association list, for evaluating the model: it satisfies both hypotheses, so
  they are consistent.
\<close>

definition mem_leveldb :: "(bytes \<times> bytes) list leveldb" where
  "mem_leveldb =
     \<lparr>db_Open = (\<lambda>create path. (StatusOk, [])),
      db_Get = (\<lambda>d k. case map_of d k of None \<Rightarrow> (StatusErr ''NotFound: '', []) | Some v \<Rightarrow> (StatusOk, v)),
      db_Put = (\<lambda>d k v. (StatusOk, (k, v) # d)),
      db_Delete = (\<lambda>d k. (StatusOk, filter (\<lambda>kv. fst kv \<noteq> k) d))\<rparr>"

lemma map_of_filter_neq: "map_of (filter (\<lambda>kv. fst kv \<noteq> k) d) = (map_of d)(k := None)"
  by (induction d) (auto simp: fun_eq_iff)

lemma mem_leveldb_contract: "leveldb_contract mem_leveldb map_of"
  by (auto simp: leveldb_contract_def mem_leveldb_def map_of_filter_neq split: option.splits)

lemma mem_leveldb_reliable: "leveldb_reliable mem_leveldb map_of"
  by (auto simp: leveldb_reliable_def mem_leveldb_def)

interpretation mem_store: reliable_leveldb mem_leveldb map_of
  by unfold_locales (rule mem_leveldb_contract, rule mem_leveldb_reliable)

section \<open>Properties\<close>

text \<open>
  The disk store reads its own writes. On a database that behaves as documented and reports no
  I/O errors, a Put returns and a Get of the same key then returns the value; every other key reads
  as before; a Del returns and a Get of the deleted key then stops the process.
\<close>

theorem DiskStorage_reads_writes:
  assumes "leveldb_contract ldb view" and "leveldb_reliable ldb view"
  shows "\<exists>s1 s2. DiskStorage_Put ldb s k v = Inr s1 \<and> DiskStorage_Get ldb s1 k = Inr v
    \<and> (\<forall>k' w. k' \<noteq> k \<longrightarrow> (DiskStorage_Get ldb s1 k' = Inr w \<longleftrightarrow> DiskStorage_Get ldb s k' = Inr w))
    \<and> DiskStorage_Del ldb s1 k = Inr s2 \<and> (\<exists>e. DiskStorage_Get ldb s2 k = fatal e)"
proof -
  note store = DiskStorage_reliable_kv_store [OF assms]
  note base = reliable_kv_store.axioms(1) [OF store]
  have get_iff: "DiskStorage_Get ldb d k = Inr w \<longleftrightarrow> disk_contents view d k = Some w" for d k w
    using kv_store.get_sound [OF base] reliable_kv_store.get_present [OF store] by blast
  obtain s1 where s1: "DiskStorage_Put ldb s k v = Inr s1"
    using reliable_kv_store.put_returns [OF store] by blast
  obtain s2 where s2: "DiskStorage_Del ldb s1 k = Inr s2"
    using reliable_kv_store.del_returns [OF store] by blast
  show ?thesis
    using s1 s2 kv_store.put_contents [OF base s1] kv_store.get_after_del [OF base s2] get_iff by auto
qed

theorem DiskStorage_reads_writes_witness:
  "\<exists>s1. DiskStorage_Put mem_leveldb \<lparr>db_path = ''d'', db = []\<rparr> ''k'' ''v'' = Inr s1
     \<and> DiskStorage_Get mem_leveldb s1 ''k'' = Inr ''v''"
  using DiskStorage_reads_writes [OF mem_leveldb_contract mem_leveldb_reliable, of "\<lparr>db_path = ''d'', db = []\<rparr>" "''k''" "''v''"]
  by blast

end
