(* ===== verification/Cstrings.thy ===== *)
theory Cstrings
  imports Jkv_Prelude
begin

text \<open>
  The string functions the code uses: \<^verbatim>\<open>std::to_string\<close> on unsigned numbers and
  \<^verbatim>\<open>atoi\<close> of the C library, both executable, and \<^verbatim>\<open>boost::split\<close> with
  \<^verbatim>\<open>boost::is_any_of\<close>, which belongs to a library outside the sources and is therefore a
  parameter with its documented behaviour as the hypothesis \<open>split_contract\<close>.
\<close>

section \<open>Decimal numbers\<close>

definition digit :: "nat \<Rightarrow> char" where
  "digit n = char_of (48 + n)"

definition is_digit :: "char \<Rightarrow> bool" where
  "is_digit c \<longleftrightarrow> 48 \<le> (of_char c :: nat) \<and> (of_char c :: nat) \<le> 57"

definition digit_val :: "char \<Rightarrow> nat" where
  "digit_val c = of_char c - 48"

fun to_dec :: "nat \<Rightarrow> string" where
  "to_dec n = (if n < 10 then [digit n] else to_dec (n div 10) @ [digit (n mod 10)])"

declare to_dec.simps [simp del]

text \<open>\<^verbatim>\<open>std::to_string(uint64_t)\<close>.\<close>

definition to_string :: "u64 \<Rightarrow> string" where
  "to_string w = to_dec (unat w)"

fun scan_digits :: "nat \<Rightarrow> string \<Rightarrow> nat" where
  "scan_digits acc [] = acc"
| "scan_digits acc (c # cs) = (if is_digit c then scan_digits (10 * acc + digit_val c) cs else acc)"

text \<open>\<^verbatim>\<open>isspace\<close> in the C locale: blank, tab, newline, vertical tab, form feed, return.\<close>

definition is_space :: "char \<Rightarrow> bool" where
  "is_space c \<longleftrightarrow> (of_char c :: nat) = 32 \<or> 9 \<le> (of_char c :: nat) \<and> (of_char c :: nat) \<le> 13"

text \<open>
  \<^verbatim>\<open>atoi\<close>: blanks, an optional sign, then the longest run of digits; no digits give 0.
  The C standard leaves a value outside the range of \<^verbatim>\<open>int\<close> undefined.
\<close>

definition atoi_sign :: "string \<Rightarrow> int \<times> string" where
  "atoi_sign s = (case s of [] \<Rightarrow> (1, [])
     | c # cs \<Rightarrow> if c = CHR ''-'' then (-1, cs) else if c = CHR ''+'' then (1, cs) else (1, c # cs))"

definition atoi :: "string \<Rightarrow> int outcome" where
  "atoi s =
     (let (sign, t) = atoi_sign (dropWhile is_space s); v = sign * int (scan_digits 0 t)
      in if - (2 ^ 31) \<le> v \<and> v < 2 ^ 31 then Inr v else undefined_behaviour ''atoi'')"

lemma of_char_digit: "n < 10 \<Longrightarrow> (of_char (digit n) :: nat) = 48 + n"
  by (simp add: digit_def)

lemma is_digit_digit [simp]: "n < 10 \<Longrightarrow> is_digit (digit n)"
  by (simp add: is_digit_def of_char_digit)

lemma digit_val_digit [simp]: "n < 10 \<Longrightarrow> digit_val (digit n) = n"
  by (simp add: digit_val_def of_char_digit)

lemma to_dec_digits: "c \<in> set (to_dec n) \<Longrightarrow> is_digit c"
proof (induction n rule: to_dec.induct)
  case (1 n)
  then show ?case
    by (cases "n < 10") (auto simp: to_dec.simps [of n])
qed

lemma to_dec_nonempty [simp]: "to_dec n \<noteq> []"
  by (subst to_dec.simps) simp

lemma scan_digits_to_dec:
  "scan_digits acc (to_dec n @ r) = scan_digits (acc * 10 ^ length (to_dec n) + n) r"
proof (induction n arbitrary: acc r rule: to_dec.induct)
  case (1 n)
  show ?case
  proof (cases "n < 10")
    case True
    then show ?thesis by (simp add: to_dec.simps [of n] mult.commute)
  next
    case False
    then have n: "to_dec n = to_dec (n div 10) @ [digit (n mod 10)]"
      by (simp add: to_dec.simps [of n])
    have "scan_digits acc (to_dec n @ r) =
        scan_digits (10 * (acc * 10 ^ length (to_dec (n div 10)) + n div 10) + n mod 10) r"
      using False by (simp add: n "1.IH")
    also have "10 * (acc * 10 ^ length (to_dec (n div 10)) + n div 10) + n mod 10 =
        acc * 10 ^ length (to_dec n) + n"
      by (simp add: n)
    finally show ?thesis .
  qed
qed

lemma is_digit_not_blank_sign:
  "is_digit c \<Longrightarrow> \<not> is_space c \<and> c \<noteq> CHR ''-'' \<and> c \<noteq> CHR ''+''"
  by (auto simp: is_digit_def is_space_def)

lemma atoi_digits:
  assumes "\<forall>c\<in>set ds. is_digit c"
  shows "atoi ds = (if scan_digits 0 ds < 2 ^ 31 then Inr (int (scan_digits 0 ds))
    else undefined_behaviour ''atoi'')"
proof -
  have "dropWhile is_space ds = ds"
    using assms by (cases ds) (auto dest: is_digit_not_blank_sign)
  moreover have "atoi_sign ds = (1, ds)"
    using assms by (cases ds) (auto simp: atoi_sign_def dest: is_digit_not_blank_sign)
  ultimately show ?thesis
    by (auto simp: atoi_def Let_def)
qed

lemma atoi_to_dec: "n < 2 ^ 31 \<Longrightarrow> atoi (to_dec n) = Inr (int n)"
  using scan_digits_to_dec [of 0 n "[]"] by (simp add: atoi_digits to_dec_digits)

lemma to_dec_inj: "to_dec m = to_dec n \<Longrightarrow> m = n"
  using scan_digits_to_dec [of 0 m "[]"] scan_digits_to_dec [of 0 n "[]"] by simp

lemma to_string_inj [simp]: "to_string a = to_string b \<longleftrightarrow> a = b"
  by (auto simp: to_string_def dest: to_dec_inj intro: word_unat_eq_iff [THEN iffD2])

section \<open>Splitting at a separator\<close>

fun join :: "char \<Rightarrow> string list \<Rightarrow> string" where
  "join c [] = []"
| "join c [x] = x"
| "join c (x # y # ys) = x @ c # join c (y # ys)"

definition separable :: "char \<Rightarrow> string list \<Rightarrow> bool" where
  "separable c xs \<longleftrightarrow> xs \<noteq> [] \<and> (\<forall>x\<in>set xs. c \<notin> set x)"

text \<open>
  \<^verbatim>\<open>boost::split(r, s, boost::is_any_of("c"))\<close> without token compression cuts the string at
  every occurrence of the separator and keeps empty pieces.
\<close>

definition split_contract :: "(char \<Rightarrow> string \<Rightarrow> string list) \<Rightarrow> bool" where
  "split_contract sp \<longleftrightarrow> (\<forall>c s. separable c (sp c s) \<and> join c (sp c s) = s)"

lemma join_Cons: "ys \<noteq> [] \<Longrightarrow> join c (y # ys) = y @ c # join c ys"
  by (cases ys) auto

lemma join_Cons_Cons: "join c ((a # x) # xs) = a # join c (x # xs)"
  by (cases xs) auto

lemma sep_append_eq:
  "c \<notin> set x \<Longrightarrow> c \<notin> set y \<Longrightarrow> x @ c # r = y @ c # t \<Longrightarrow> x = y \<and> r = t"
  by (induction x arbitrary: y) (auto simp: Cons_eq_append_conv)

lemma sep_append_neq: "c \<notin> set x \<Longrightarrow> x \<noteq> y @ c # r"
  by auto

lemma join_inj:
  assumes "separable c xs" and "separable c ys" and "join c xs = join c ys"
  shows "xs = ys"
  using assms
proof (induction xs arbitrary: ys)
  case (Cons x xs)
  then obtain y zs where ys: "ys = y # zs"
    by (cases ys) (auto simp: separable_def)
  have x: "c \<notin> set x" and y: "c \<notin> set y"
    using Cons.prems(1,2) ys by (auto simp: separable_def)
  show ?case
  proof (cases "xs = [] \<or> zs = []")
    case True
    with Cons.prems(3) x y ys show ?thesis
      by (cases xs; cases zs) auto
  next
    case False
    then have "x @ c # join c xs = y @ c # join c zs"
      using Cons.prems(3) by (simp add: ys join_Cons)
    from sep_append_eq [OF x y this] have "x = y" "join c xs = join c zs"
      by simp_all
    moreover have "separable c xs" "separable c zs"
      using Cons.prems(1,2) ys False by (auto simp: separable_def)
    ultimately show ?thesis
      using Cons.IH ys by blast
  qed
qed (simp add: separable_def)

lemma split_join:
  assumes "split_contract sp" and "separable c xs"
  shows "sp c (join c xs) = xs"
  using assms join_inj unfolding split_contract_def by blast

lemma split_nonempty: "split_contract sp \<Longrightarrow> sp c s \<noteq> []"
  by (auto simp: split_contract_def separable_def)

text \<open>A splitting function, for evaluating the model.\<close>

fun ref_split :: "char \<Rightarrow> string \<Rightarrow> string list" where
  "ref_split c [] = [[]]"
| "ref_split c (x # xs) =
     (if x = c then [] # ref_split c xs
      else case ref_split c xs of [] \<Rightarrow> [[x]] | y # ys \<Rightarrow> (x # y) # ys)"

lemma ref_split_contract: "split_contract ref_split"
proof -
  have "separable c (ref_split c s) \<and> join c (ref_split c s) = s" for c s
    by (induction s) (auto simp: separable_def join_Cons join_Cons_Cons split: list.splits)
  then show ?thesis
    by (simp add: split_contract_def)
qed

end
