(* ===== verification/Group_Members.thy ===== *)
theory Group_Members
  imports Cstrings
begin

text \<open>
  The member table of a peer: \<^verbatim>\<open>GroupMember\<close> (peer.h), the type aliases and constants of
  common/config.h, and \<^verbatim>\<open>Peer::InitGroupMembers\<close> (peer.cc), which parses the
  configuration string \<^verbatim>\<open>host1,peer1,ip1,port1|host2,peer2,ip2,port2|...\<close>.
  The table \<^verbatim>\<open>peers_\<close> is an unordered map; here it is an association list with the
  entries in the order of insertion.
\<close>

section \<open>Members and the table\<close>

type_synonym HostId = u64
type_synonym PeerId = u64

definition kNoHost :: HostId where
  "kNoHost = 0"

definition kNoPeer :: PeerId where
  "kNoPeer = 0"

record GroupMember =
  gm_host_id :: HostId
  gm_peer_id :: PeerId
  gm_ip :: string
  gm_port :: u16

type_synonym member_table = "(HostId \<times> GroupMember) list"

text \<open>The body of the loop over the \<^verbatim>\<open>|\<close>-separated parts.\<close>

definition InitGroupMember ::
  "(char \<Rightarrow> string \<Rightarrow> string list) \<Rightarrow> string \<Rightarrow> member_table \<Rightarrow> member_table outcome" where
  "InitGroupMember split str peers =
     (let addr_info = split (CHR '','') str
      in if length addr_info \<noteq> 4 then fatal ''invalid member''
         else obind (atoi (addr_info ! 0)) (\<lambda>h.
           if map_of peers (word_of_int h) \<noteq> None then fatal ''same host in one cluster''
           else obind (atoi (addr_info ! 1)) (\<lambda>p.
             obind (atoi (addr_info ! 3)) (\<lambda>prt.
               let group_member = \<lparr>gm_host_id = word_of_int h, gm_peer_id = word_of_int p,
                     gm_ip = addr_info ! 2, gm_port = word_of_int prt\<rparr>
               in Inr (peers @ [(gm_host_id group_member, group_member)])))))"

definition InitGroupMembers ::
  "(char \<Rightarrow> string \<Rightarrow> string list) \<Rightarrow> string \<Rightarrow> member_table \<Rightarrow> member_table outcome" where
  "InitGroupMembers split members peers =
     (let strs = split (CHR ''|'') members
      in if strs = [] then fatal ''invalid members''
         else ofold (InitGroupMember split) strs peers)"

section \<open>Well-formed tables\<close>

definition members_ok :: "member_table \<Rightarrow> bool" where
  "members_ok t \<longleftrightarrow> distinct (map fst t) \<and> (\<forall>(h, m) \<in> set t. gm_host_id m = h)"

lemma members_ok_Nil [simp]: "members_ok []"
  by (simp add: members_ok_def)

lemma members_ok_find: "members_ok t \<Longrightarrow> map_of t h = Some m \<Longrightarrow> gm_host_id m = h"
  by (auto simp: members_ok_def dest: map_of_SomeD)

lemma InitGroupMember_adds:
  "InitGroupMember split str t = Inr t' \<Longrightarrow>
     \<exists>m. t' = t @ [(gm_host_id m, m)] \<and> map_of t (gm_host_id m) = None"
  by (auto simp: InitGroupMember_def Let_def split: if_splits) 

lemma InitGroupMember_ok:
  "members_ok t \<Longrightarrow> InitGroupMember split str t = Inr t' \<Longrightarrow> members_ok t'"
  by (drule InitGroupMember_adds) (auto simp: members_ok_def map_of_eq_None_iff)

lemma InitGroupMembers_members_ok:
  assumes "InitGroupMembers split members t = Inr t'" and "members_ok t"
  shows "members_ok t'"
proof -
  have "ofold (InitGroupMember split) (split (CHR ''|'') members) t = Inr t'"
    using assms(1) by (auto simp: InitGroupMembers_def Let_def split: if_splits)
  then show ?thesis
    using assms(2) by (rule ofold_invariant) (auto intro: InitGroupMember_ok)
qed

lemma InitGroupMember_loop_length:
  assumes "ofold (InitGroupMember split) strs t = Inr t'"
  shows "length t' = length t + length strs"
  using assms by (induction strs arbitrary: t) (fastforce dest: InitGroupMember_adds)+

section \<open>Printing and parsing\<close>

definition print_member :: "GroupMember \<Rightarrow> string" where
  "print_member m = join (CHR '','')
     [to_dec (unat (gm_host_id m)), to_dec (unat (gm_peer_id m)), gm_ip m, to_dec (unat (gm_port m))]"

definition print_members :: "GroupMember list \<Rightarrow> string" where
  "print_members ms = join (CHR ''|'') (map print_member ms)"

text \<open>
  The members the format can carry: identifiers that fit in an \<^verbatim>\<open>int\<close> and an address
  without the two separators.
\<close>

definition printable :: "GroupMember \<Rightarrow> bool" where
  "printable m \<longleftrightarrow> unat (gm_host_id m) < 2 ^ 31 \<and> unat (gm_peer_id m) < 2 ^ 31
     \<and> CHR '','' \<notin> set (gm_ip m) \<and> CHR ''|'' \<notin> set (gm_ip m)"

lemma to_dec_no_sep: "CHR '','' \<notin> set (to_dec n)" "CHR ''|'' \<notin> set (to_dec n)"
  using to_dec_digits by (fastforce simp: is_digit_def)+

lemma print_member_split:
  assumes "split_contract split" and "printable m"
  shows "split (CHR '','') (print_member m) =
    [to_dec (unat (gm_host_id m)), to_dec (unat (gm_peer_id m)), gm_ip m, to_dec (unat (gm_port m))]"
  unfolding print_member_def
  by (rule split_join [OF assms(1)]) (use assms(2) in \<open>auto simp: separable_def printable_def to_dec_no_sep\<close>)

lemma print_member_no_bar: "printable m \<Longrightarrow> CHR ''|'' \<notin> set (print_member m)"
  by (auto simp: print_member_def printable_def to_dec_no_sep)

lemma print_members_split:
  assumes "split_contract split" and "\<forall>m\<in>set ms. printable m" and "ms \<noteq> []"
  shows "split (CHR ''|'') (print_members ms) = map print_member ms"
  unfolding print_members_def
  by (rule split_join [OF assms(1)]) (use assms(2,3) in \<open>auto simp: separable_def print_member_no_bar\<close>)

lemma atoi_port: "atoi (to_dec (unat (p :: u16))) = Inr (int (unat p))"
  by (rule atoi_to_dec) (use unsigned_less [where ?'a = nat, of p] in simp)

lemma atoi_to_dec_full: "atoi (to_dec n) = (if n < 2 ^ 31 then Inr (int n) else undefined_behaviour ''atoi'')"
  using scan_digits_to_dec [of 0 n "[]"] by (simp add: atoi_digits to_dec_digits)

lemma InitGroupMember_print:
  assumes "split_contract split" and "printable m" and "gm_host_id m \<notin> fst ` set t"
  shows "InitGroupMember split (print_member m) t = Inr (t @ [(gm_host_id m, m)])"
  using assms(2,3)
  by (simp add: InitGroupMember_def print_member_split [OF assms(1,2)] printable_def atoi_to_dec
      atoi_port map_of_eq_None_iff)

lemma InitGroupMember_print_all:
  assumes "split_contract split" and "\<forall>m\<in>set ms. printable m"
    and "distinct (map fst t @ map gm_host_id ms)"
  shows "ofold (InitGroupMember split) (map print_member ms) t = Inr (t @ map (\<lambda>m. (gm_host_id m, m)) ms)"
  using assms(2,3)
proof (induction ms arbitrary: t)
  case (Cons m ms)
  then have "gm_host_id m \<notin> fst ` set t"
    by auto
  with Cons.prems have "InitGroupMember split (print_member m) t = Inr (t @ [(gm_host_id m, m)])"
    by (intro InitGroupMember_print [OF assms(1)]) auto
  moreover have "ofold (InitGroupMember split) (map print_member ms) (t @ [(gm_host_id m, m)]) =
      Inr ((t @ [(gm_host_id m, m)]) @ map (\<lambda>m. (gm_host_id m, m)) ms)"
    by (rule Cons.IH) (use Cons.prems in auto)
  ultimately show ?case
    by simp
qed simp

section \<open>Properties\<close>

text \<open>
  C24: round trip of the member configuration. Whatever list of members with pairwise different
  hosts, identifiers below \<open>2 ^ 31\<close> and separator-free addresses is written in the documented
  format, \<^verbatim>\<open>InitGroupMembers\<close> reads back exactly these members, each under its host.
\<close>

theorem InitGroupMembers_roundtrip:
  assumes "split_contract split" and "ms \<noteq> []" and "\<forall>m\<in>set ms. printable m"
    and "distinct (map gm_host_id ms)"
  shows "InitGroupMembers split (print_members ms) [] = Inr (map (\<lambda>m. (gm_host_id m, m)) ms)"
  using InitGroupMember_print_all [OF assms(1,3), of "[]"] assms(2,4)
  by (simp add: InitGroupMembers_def print_members_split [OF assms(1,3,2)])

theorem InitGroupMembers_roundtrip_witness:
  "InitGroupMembers ref_split
     (print_members [\<lparr>gm_host_id = 1, gm_peer_id = 1, gm_ip = ''127.0.0.1'', gm_port = 10000\<rparr>,
        \<lparr>gm_host_id = 2, gm_peer_id = 1, gm_ip = ''127.0.0.1'', gm_port = 10001\<rparr>]) []
   = Inr [(1, \<lparr>gm_host_id = 1, gm_peer_id = 1, gm_ip = ''127.0.0.1'', gm_port = 10000\<rparr>),
        (2, \<lparr>gm_host_id = 2, gm_peer_id = 1, gm_ip = ''127.0.0.1'', gm_port = 10001\<rparr>)]"
  using InitGroupMembers_roundtrip [OF ref_split_contract,
    of "[\<lparr>gm_host_id = 1, gm_peer_id = 1, gm_ip = ''127.0.0.1'', gm_port = 10000\<rparr>,
        \<lparr>gm_host_id = 2, gm_peer_id = 1, gm_ip = ''127.0.0.1'', gm_port = 10001\<rparr>]"]
  by (simp add: printable_def)

text \<open>
  C26: the table \<^verbatim>\<open>InitGroupMembers\<close> builds is well formed: every part of the string gives
  exactly one entry, no host occurs twice, and every entry stands under its own host.
\<close>

theorem InitGroupMembers_invariant:
  assumes "InitGroupMembers split members [] = Inr t"
  shows "members_ok t \<and> length t = length (split (CHR ''|'') members)"
proof
  show "members_ok t"
    by (rule InitGroupMembers_members_ok [OF assms members_ok_Nil])
  show "length t = length (split (CHR ''|'') members)"
    using assms InitGroupMember_loop_length [of split "split (CHR ''|'') members" "[]" t]
    by (auto simp: InitGroupMembers_def Let_def split: if_splits)
qed

theorem InitGroupMembers_invariant_witness:
  "members_ok [(7, \<lparr>gm_host_id = 7, gm_peer_id = 1, gm_ip = ''h'', gm_port = 80\<rparr>)]"
proof -
  have "InitGroupMembers ref_split ''7,1,h,80'' [] =
      Inr [(7, \<lparr>gm_host_id = 7, gm_peer_id = 1, gm_ip = ''h'', gm_port = 80\<rparr>)]"
    by (simp add: InitGroupMembers_def InitGroupMember_def atoi_def atoi_sign_def is_space_def
        is_digit_def digit_val_def)
  from InitGroupMembers_invariant [OF this] show ?thesis
    by simp
qed

text \<open>
  C25: the numbers a member string can carry. For four fields with decimal numbers of any size,
  \<^verbatim>\<open>InitGroupMembers\<close> adds a member exactly when the three numbers are below \<open>2 ^ 31\<close> and
  the host is new: an identifier of 64 bits is beyond what \<^verbatim>\<open>atoi\<close> defines, a repeated host
  is fatal, and a port is silently reduced modulo 65536.
\<close>

theorem InitGroupMember_decimal:
  assumes "split_contract split" and "CHR '','' \<notin> set ip"
  shows "InitGroupMember split (join (CHR '','') [to_dec h, to_dec p, ip, to_dec prt]) t =
    (if 2 ^ 31 \<le> h then undefined_behaviour ''atoi''
     else if map_of t (of_nat h) \<noteq> None then fatal ''same host in one cluster''
     else if 2 ^ 31 \<le> p \<or> 2 ^ 31 \<le> prt then undefined_behaviour ''atoi''
     else Inr (t @ [(of_nat h, \<lparr>gm_host_id = of_nat h, gm_peer_id = of_nat p, gm_ip = ip,
                      gm_port = of_nat (prt mod 65536)\<rparr>)]))"
proof -
  have fields: "split (CHR '','') (join (CHR '','') [to_dec h, to_dec p, ip, to_dec prt]) =
      [to_dec h, to_dec p, ip, to_dec prt]"
    by (rule split_join [OF assms(1)]) (use assms(2) in \<open>auto simp: separable_def to_dec_no_sep\<close>)
  have port: "(of_nat (prt mod 65536) :: u16) = of_nat prt"
    by (rule word_unat_eq_iff [THEN iffD2]) (simp add: unat_of_nat take_bit_eq_mod)
  show ?thesis
    unfolding InitGroupMember_def Let_def fields port by (auto simp: atoi_to_dec_full)
qed

theorem InitGroupMember_decimal_witness:
  "InitGroupMember ref_split (join (CHR '','') [to_dec 3, to_dec 1, ''h'', to_dec 75536]) [] =
     Inr [(3, \<lparr>gm_host_id = 3, gm_peer_id = 1, gm_ip = ''h'', gm_port = 10000\<rparr>)]"
  by (subst InitGroupMember_decimal [OF ref_split_contract]) simp_all

end
