(* ===== verification/Rpc_Clients.thy ===== *)
theory Rpc_Clients
  imports Closures Group_Members
begin

text \<open>
  The outgoing RPC clients of a host: the part of \<^verbatim>\<open>jrpc::RpcClient\<close> that its header
  defines (net/rpc/rpc\_client.h: members with their defaults, setters), the cache
  \<^verbatim>\<open>rpc_cli_mgr_\<close> and \<^verbatim>\<open>PeerHost::GetClient\<close> (peer\_host.cc). Opening a
  connection is done by the RPC library: its result is the parameter \<open>connect\<close>, 0 for success.
\<close>

section \<open>RpcClient\<close>

datatype Transport = kTcp

record SockAddress =
  sa_ip :: string
  sa_port :: u16

type_synonym worker_ptr = nat

record RpcClient =
  cli_tp :: Transport
  cli_worker :: worker_ptr
  cli_addr :: SockAddress
  cli_name :: string
  rpc_depth :: u32
  timeout_ms :: u32
  conn_idle_time_s :: u64

definition new_RpcClient :: "Transport \<Rightarrow> worker_ptr \<Rightarrow> SockAddress \<Rightarrow> string \<Rightarrow> RpcClient" where
  "new_RpcClient t w a n = \<lparr>cli_tp = t, cli_worker = w, cli_addr = a, cli_name = n,
     rpc_depth = - 1, timeout_ms = 3000, conn_idle_time_s = - 1\<rparr>"

definition set_rpc_depth :: "u32 \<Rightarrow> RpcClient \<Rightarrow> RpcClient" where
  "set_rpc_depth d c = c\<lparr>rpc_depth := if d = 0 then - 1 else d\<rparr>"

definition set_timeout_ms :: "u32 \<Rightarrow> RpcClient \<Rightarrow> RpcClient" where
  "set_timeout_ms t c = c\<lparr>timeout_ms := t\<rparr>"

definition set_conn_idle_time_s :: "u64 \<Rightarrow> RpcClient \<Rightarrow> RpcClient" where
  "set_conn_idle_time_s t c = c\<lparr>conn_idle_time_s := if t = 0 then - 1 else t\<rparr>"

section \<open>The client cache of a host\<close>

text \<open>
  \<open>sent\<close> is the log of calls handed to the RPC layer, with the client each goes through. Each call
  owns two objects made with \<^verbatim>\<open>new\<close>, its controller and its response: objects are numbered
  in the order of their creation, \<open>live_objs\<close> are those not yet deleted, and \<open>awaiting\<close> are the
  callbacks the RPC layer has yet to run, each bound to its controller and its response.
\<close>

type_synonym obj_ptr = nat

record net = replies +
  rpc_cli_mgr :: "HostId \<rightharpoonup> RpcClient"
  sent :: "(RpcClient \<times> RaftMsgReq) list"
  next_obj :: obj_ptr
  live_objs :: "obj_ptr set"
  awaiting :: "(obj_ptr \<times> obj_ptr) list"

text \<open>\<^verbatim>\<open>new\<close> and \<^verbatim>\<open>delete\<close>; deleting what is not live is undefined.\<close>

definition new_object :: "'z net_scheme \<Rightarrow> obj_ptr \<times> 'z net_scheme" where
  "new_object s = (next_obj s, s\<lparr>next_obj := next_obj s + 1, live_objs := insert (next_obj s) (live_objs s)\<rparr>)"

definition delete_object :: "obj_ptr \<Rightarrow> 'z net_scheme \<Rightarrow> 'z net_scheme outcome" where
  "delete_object x s =
     (if x \<in> live_objs s then Inr (s\<lparr>live_objs := live_objs s - {x}\<rparr>) else undefined_behaviour ''double delete'')"

definition GetClient :: "(RpcClient \<Rightarrow> int) \<Rightarrow> HostId \<Rightarrow> worker_ptr \<Rightarrow> SockAddress \<Rightarrow> u64 \<Rightarrow> string \<Rightarrow> bool
    \<Rightarrow> 'z net_scheme \<Rightarrow> (RpcClient option \<times> 'z net_scheme) outcome" where
  "GetClient connect h w addr tmo name create_if_missing s =
     (case rpc_cli_mgr s h of
        None \<Rightarrow>
          if \<not> create_if_missing then Inr (None, s)
          else
            let client = set_rpc_depth 10000 (set_timeout_ms (ucast tmo) (new_RpcClient kTcp w addr name))
            in if connect client \<noteq> 0 then fatal ''connect failed''
               else Inr (Some client, s\<lparr>rpc_cli_mgr := (rpc_cli_mgr s)(h \<mapsto> client)\<rparr>)
      | Some client \<Rightarrow> Inr (Some client, s))"

section \<open>Lemmas\<close>

named_theorems net_simps "frame facts of the client cache"

lemma GetClient_frame [net_simps]:
  assumes "GetClient connect h w addr tmo name create s = Inr (c, s')"
  shows "resps s' = resps s" "runs s' = runs s" "sent s' = sent s" "net.more s' = net.more s"
  using assms by (auto simp: GetClient_def Let_def split: option.splits if_splits)

lemma GetClient_cached:
  "rpc_cli_mgr s h = Some c \<Longrightarrow> GetClient connect h w addr tmo name create s = Inr (Some c, s)"
  by (simp add: GetClient_def)

lemma GetClient_result:
  assumes "GetClient connect h w addr tmo name create s = Inr (Some c, s')"
  shows "rpc_cli_mgr s' = (rpc_cli_mgr s)(h \<mapsto> c)"
  using assms by (auto simp: GetClient_def Let_def split: option.splits if_splits)

text \<open>Entries of the cache are never replaced.\<close>

lemma GetClient_monotone:
  assumes "GetClient connect h w addr tmo name create s = Inr (c, s')"
  shows "rpc_cli_mgr s \<subseteq>\<^sub>m rpc_cli_mgr s'"
  using assms by (auto simp: GetClient_def Let_def map_le_def split: option.splits if_splits)

text \<open>Every cached client passed \<^verbatim>\<open>Connect\<close>.\<close>

definition clients_connected :: "(RpcClient \<Rightarrow> int) \<Rightarrow> 'z net_scheme \<Rightarrow> bool" where
  "clients_connected connect s \<longleftrightarrow> (\<forall>h c. rpc_cli_mgr s h = Some c \<longrightarrow> connect c = 0)"

lemma GetClient_connected:
  assumes "GetClient connect h w addr tmo name create s = Inr (c, s')" and "clients_connected connect s"
  shows "clients_connected connect s'"
  using assms by (auto simp: GetClient_def Let_def clients_connected_def split: option.splits if_splits)

section \<open>Properties\<close>

text \<open>
  \<^verbatim>\<open>GetClient\<close> is a cache. After a call that created or found a client for a host, every
  later call for the same host, whatever its other arguments, returns that same client, opens no
  connection and changes nothing; the entries for other hosts are untouched.
\<close>

theorem GetClient_idempotent:
  assumes "GetClient connect h w addr tmo name create s = Inr (Some c, s')"
  shows "GetClient connect' h w' addr' tmo' name' create' s' = Inr (Some c, s')
    \<and> (\<forall>h'. h' \<noteq> h \<longrightarrow> rpc_cli_mgr s' h' = rpc_cli_mgr s h')"
  using GetClient_result [OF assms] by (auto intro: GetClient_cached)

theorem GetClient_idempotent_witness:
  "GetClient (\<lambda>_. 1) 2 0 \<lparr>sa_ip = ''b'', sa_port = 9\<rparr> 1 ''x'' False
     \<lparr>resps = \<lambda>_. default_KvResp, runs = [],
      rpc_cli_mgr = [2 \<mapsto> \<lparr>cli_tp = kTcp, cli_worker = 5, cli_addr = \<lparr>sa_ip = ''a'', sa_port = 80\<rparr>,
        cli_name = [], rpc_depth = 10000, timeout_ms = 300, conn_idle_time_s = - 1\<rparr>], sent = [], next_obj = 0, live_objs = {}, awaiting = []\<rparr>
   = Inr (Some \<lparr>cli_tp = kTcp, cli_worker = 5, cli_addr = \<lparr>sa_ip = ''a'', sa_port = 80\<rparr>,
        cli_name = [], rpc_depth = 10000, timeout_ms = 300, conn_idle_time_s = - 1\<rparr>,
     \<lparr>resps = \<lambda>_. default_KvResp, runs = [],
      rpc_cli_mgr = [2 \<mapsto> \<lparr>cli_tp = kTcp, cli_worker = 5, cli_addr = \<lparr>sa_ip = ''a'', sa_port = 80\<rparr>,
        cli_name = [], rpc_depth = 10000, timeout_ms = 300, conn_idle_time_s = - 1\<rparr>], sent = [], next_obj = 0, live_objs = {}, awaiting = []\<rparr>)"
proof -
  let ?s = "\<lparr>resps = \<lambda>_. default_KvResp, runs = [], rpc_cli_mgr = Map.empty, sent = [], next_obj = 0, live_objs = {}, awaiting = []\<rparr>"
  have "GetClient (\<lambda>_. 0) 2 5 \<lparr>sa_ip = ''a'', sa_port = 80\<rparr> 300 [] True ?s =
    Inr (Some \<lparr>cli_tp = kTcp, cli_worker = 5, cli_addr = \<lparr>sa_ip = ''a'', sa_port = 80\<rparr>,
        cli_name = [], rpc_depth = 10000, timeout_ms = 300, conn_idle_time_s = - 1\<rparr>,
     ?s\<lparr>rpc_cli_mgr := [2 \<mapsto> \<lparr>cli_tp = kTcp, cli_worker = 5, cli_addr = \<lparr>sa_ip = ''a'', sa_port = 80\<rparr>,
        cli_name = [], rpc_depth = 10000, timeout_ms = 300, conn_idle_time_s = - 1\<rparr>]\<rparr>)"
    by (simp add: GetClient_def new_RpcClient_def set_rpc_depth_def set_timeout_ms_def Let_def)
  from GetClient_idempotent [OF this] show ?thesis
    by simp
qed

end
