(* ===== verification/Peer.thy ===== *)
theory Peer
  imports Proposals Disk_Storage Rpc_Clients
begin

text \<open>
  The class \<^verbatim>\<open>Peer\<close> (peer/peer.h, peer/peer.cc): one replica of the key-value store. It
  feeds client requests to its Raft node as proposals, and on every tick collects what Raft has
  ready: entries to append, messages to send, committed entries to apply to the store.

  The Raft library jraft is a submodule whose sources are absent: a node is a value of an
  arbitrary type and the calls the peer makes are the fields of the record \<open>jraft\<close>. The
  generated serialisation of \<^verbatim>\<open>KvReq\<close> is the record \<open>pb_codec\<close>. Members of the
  class become the record \<open>Peer\<close>; the operations pass it along together with the part of the
  host they reach through \<^verbatim>\<open>host_\<close> (a \<open>net\<close> record or an extension of it).
\<close>

section \<open>Collaborators\<close>

datatype ReadOnlyOption = kReadOnlySafe | kReadOnlyLeaseBased

text \<open>The fields of \<^verbatim>\<open>jraft::Config\<close> that the constructor sets.\<close>

record Config =
  cfg_id :: u64
  cfg_election_tick :: int
  cfg_heartbeat_tick :: int
  cfg_applied :: u64
  cfg_max_size_per_msg :: u64
  cfg_max_committed_size_per_ready :: u64
  cfg_max_uncommitted_entries_size :: u64
  cfg_max_inflight_msgs :: u64
  cfg_check_quorum :: bool
  cfg_pre_vote :: bool
  cfg_read_only_option :: ReadOnlyOption
  cfg_disable_proposal_forwarding :: bool

record Ready =
  rd_entries :: "Entry list"
  rd_messages :: "Message list"
  rd_committed_entries :: "Entry list"

text \<open>
  \<open>ms_set_snapshot\<close> is the effect on the storage of writing to the snapshot object that
  \<^verbatim>\<open>GetSnapshot\<close> handed out. \<open>rn_Propose\<close> returns the node only: the peer ignores
  the error code.
\<close>

record ('rn, 'ms) jraft =
  cfg_Validate :: "Config \<Rightarrow> Config outcome"
  ms_GetSnapshot :: "'ms \<Rightarrow> ErrNum \<times> Snapshot"
  ms_set_snapshot :: "'ms \<Rightarrow> Snapshot \<Rightarrow> 'ms"
  rn_new :: "Config \<Rightarrow> 'ms \<Rightarrow> 'rn outcome"
  rn_Tick :: "'rn \<Rightarrow> 'rn"
  rn_Step :: "'rn \<Rightarrow> Message \<Rightarrow> ErrNum \<times> 'rn"
  rn_Propose :: "'rn \<Rightarrow> bytes \<Rightarrow> 'rn"
  rn_HasReady :: "'rn \<Rightarrow> bool"
  rn_GetReady :: "'rn \<Rightarrow> Ready \<times> 'rn"
  rn_Append :: "'rn \<Rightarrow> Entry list \<Rightarrow> 'rn"
  rn_Advance :: "'rn \<Rightarrow> Ready \<Rightarrow> 'rn"
  rn_IsLeader :: "'rn \<Rightarrow> bool"
  rn_term :: "'rn \<Rightarrow> u64"
  rn_LastIndex :: "'rn \<Rightarrow> u64"

record pb_codec =
  SerializeToString :: "KvReq \<Rightarrow> bytes option"
  ParseFromString :: "bytes \<Rightarrow> KvReq option"

section \<open>State and construction\<close>

record ('rn, 'db) Peer =
  self :: GroupMember
  worker :: worker_ptr
  peers :: member_table
  raw_node :: 'rn
  kv_db :: "'db DiskStorage"
  proposals :: "Proposal list"

record 'ms PeerOption =
  po_host_id :: HostId
  po_peer_id :: PeerId
  po_ip :: string
  po_port :: u16
  po_worker :: worker_ptr
  po_members :: string
  po_election_tick :: int
  po_heartbeat_tick :: int
  po_storage :: "'ms option"
  po_max_size_per_msg :: u64
  po_max_committed :: u64
  po_max_uncommitted_entries_size :: u64
  po_max_inflight_msgs :: u64
  po_max_inflight_bytes :: u64
  po_check_quorum :: bool
  po_pre_vote :: bool
  po_read_only_option :: ReadOnlyOption
  po_disable_proposal_forwarding :: bool

definition default_PeerOption :: "'ms PeerOption" where
  "default_PeerOption = \<lparr>po_host_id = kNoHost, po_peer_id = kNoPeer, po_ip = ''127.0.0.1'',
     po_port = 0, po_worker = 0, po_members = [], po_election_tick = 0, po_heartbeat_tick = 0,
     po_storage = None, po_max_size_per_msg = - 1, po_max_committed = - 1,
     po_max_uncommitted_entries_size = 0, po_max_inflight_msgs = - 1, po_max_inflight_bytes = 0,
     po_check_quorum = False, po_pre_vote = False, po_read_only_option = kReadOnlySafe,
     po_disable_proposal_forwarding = False\<rparr>"

definition peer_config :: "HostId \<Rightarrow> Config" where
  "peer_config h = \<lparr>cfg_id = h, cfg_election_tick = 8, cfg_heartbeat_tick = 1, cfg_applied = 0,
     cfg_max_size_per_msg = 1024 * 1024, cfg_max_committed_size_per_ready = 0,
     cfg_max_uncommitted_entries_size = 2 ^ 30, cfg_max_inflight_msgs = 256,
     cfg_check_quorum = True, cfg_pre_vote = True, cfg_read_only_option = kReadOnlySafe,
     cfg_disable_proposal_forwarding = False\<rparr>"

definition add_voters :: "u64 list \<Rightarrow> Snapshot \<Rightarrow> Snapshot" where
  "add_voters vs snap = snap\<lparr>metadata := (metadata snap)\<lparr>conf_state :=
     (conf_state (metadata snap))\<lparr>voters := voters (conf_state (metadata snap)) @ vs\<rparr>\<rparr>\<rparr>"

text \<open>
  The constructor. \<open>iter\<close> is the order in which the range-for over the unordered map
  \<^verbatim>\<open>peers_\<close> visits the entries; \<open>host_db_path\<close> is \<^verbatim>\<open>host_->db_path()\<close>.
  The node gets the storage with the voters added and is its only user from then on: the member
  \<^verbatim>\<open>mem_storage_\<close> is read in the constructor alone, and \<^verbatim>\<open>HandleRaftReady\<close> appends
  through the node, so the record has no field for it.
\<close>

definition new_Peer :: "('rn, 'ms) jraft \<Rightarrow> 'db leveldb \<Rightarrow> (char \<Rightarrow> string \<Rightarrow> string list)
    \<Rightarrow> filesystem \<Rightarrow> (member_table \<Rightarrow> member_table) \<Rightarrow> 'ms PeerOption \<Rightarrow> string
    \<Rightarrow> ('rn, 'db) Peer outcome" where
  "new_Peer jr ldb split fs iter opt host_db_path =
     obind (InitGroupMembers split (po_members opt) []) (\<lambda>ps.
       case po_storage opt of None \<Rightarrow> fatal ''storage should constructed at start''
       | Some ms \<Rightarrow>
         obind (cfg_Validate jr (peer_config (po_host_id opt))) (\<lambda>c.
           let (err, snap) = ms_GetSnapshot jr ms
           in if err \<noteq> kOk then fatal ''can't get snapshot from storage''
              else
                let ms' = ms_set_snapshot jr ms (add_voters (map fst (iter ps)) snap)
                in obind (rn_new jr c ms') (\<lambda>n.
                   obind (new_DiskStorage ldb fs
                       (host_db_path @ ''/'' @ ''peer_'' @ to_string (po_peer_id opt))) (\<lambda>kv.
                     Inr \<lparr>self = \<lparr>gm_host_id = po_host_id opt, gm_peer_id = po_peer_id opt,
                            gm_ip = po_ip opt, gm_port = po_port opt\<rparr>,
                          worker = po_worker opt, peers = ps, raw_node = n,
                          kv_db = kv, proposals = []\<rparr>))))"

section \<open>Operations\<close>

definition IsLeader :: "('rn, 'ms) jraft \<Rightarrow> ('rn, 'db) Peer \<Rightarrow> bool" where
  "IsLeader jr p = rn_IsLeader jr (raw_node p)"

definition Term :: "('rn, 'ms) jraft \<Rightarrow> ('rn, 'db) Peer \<Rightarrow> u64" where
  "Term jr p = rn_term jr (raw_node p)"

definition NextProposalIndex :: "('rn, 'ms) jraft \<Rightarrow> ('rn, 'db) Peer \<Rightarrow> u64" where
  "NextProposalIndex jr p = rn_LastIndex jr (raw_node p) + 1"

definition Step :: "('rn, 'ms) jraft \<Rightarrow> Message \<Rightarrow> ('rn, 'db) Peer \<Rightarrow> ErrNum \<times> ('rn, 'db) Peer" where
  "Step jr msg p = (let (e, n) = rn_Step jr (raw_node p) msg in (e, p\<lparr>raw_node := n\<rparr>))"

definition ProposeKvOp :: "('rn, 'ms) jraft \<Rightarrow> pb_codec \<Rightarrow> KvReq \<Rightarrow> resp_ptr \<Rightarrow> closure_ptr
    \<Rightarrow> ('rn, 'db) Peer \<Rightarrow> ('rn, 'db) Peer outcome" where
  "ProposeKvOp jr pb req resp done' p =
     (case SerializeToString pb req of None \<Rightarrow> fatal ''failed to serialize to str''
      | Some context' \<Rightarrow>
          let ni = NextProposalIndex jr p;
              prop' = new_Proposal ni (Term jr p) resp done';
              p1 = (if IsLeader jr p then p\<lparr>proposals := proposals p @ [prop']\<rparr> else p)
          in Inr (p1\<lparr>raw_node := rn_Propose jr (raw_node p1) context'\<rparr>))"

definition SendMsg2Peer :: "(RpcClient \<Rightarrow> int) \<Rightarrow> Message \<Rightarrow> ('rn, 'db) Peer \<times> 'z net_scheme
    \<Rightarrow> (('rn, 'db) Peer \<times> 'z net_scheme) outcome" where
  "SendMsg2Peer connect msg st =
     (let (p, s) = st
      in case map_of (peers p) (msg_to msg) of
           None \<Rightarrow> undefined_behaviour ''peers_.end() dereferenced''
         | Some to_member \<Rightarrow>
             let req = \<lparr>from_peer = \<lparr>meta_host_id = gm_host_id (self p), meta_peer_id = gm_peer_id (self p)\<rparr>,
                        to_peer = \<lparr>meta_host_id = gm_host_id to_member, meta_peer_id = gm_peer_id to_member\<rparr>,
                        raft_msg = msg\<rparr>;
                 sock_addr = \<lparr>sa_ip = gm_ip to_member, sa_port = gm_port to_member\<rparr>
             in obind (GetClient connect (msg_to msg) (worker p) sock_addr 300 [] True s) (\<lambda>(client, s1).
                  case client of None \<Rightarrow> undefined_behaviour ''null client dereferenced''
                  | Some c \<Rightarrow>
                      let (cntl, s2) = new_object s1;
                          (raft_msg_cb, s3) = new_object s2
                      in Inr (p, s3\<lparr>sent := sent s3 @ [(c, req)],
                                    awaiting := awaiting s3 @ [(cntl, raft_msg_cb)]\<rparr>)))"

text \<open>The callback of a call: its two guards are destroyed in reverse order at the closing brace.\<close>

definition HandleSendMsg2Peer :: "obj_ptr \<Rightarrow> obj_ptr \<Rightarrow> 'z net_scheme \<Rightarrow> 'z net_scheme outcome" where
  "HandleSendMsg2Peer cntl resp s = obind (delete_object resp s) (delete_object cntl)"

definition SendMsgs :: "(RpcClient \<Rightarrow> int) \<Rightarrow> Message list \<Rightarrow> ('rn, 'db) Peer \<times> 'z net_scheme
    \<Rightarrow> (('rn, 'db) Peer \<times> 'z net_scheme) outcome" where
  "SendMsgs connect msgs st = ofold (SendMsg2Peer connect) msgs st"

text \<open>\<^verbatim>\<open>if (p != nullptr) p->done->Run();\<close>\<close>

definition run_if :: "Proposal option \<Rightarrow> 'z replies_scheme \<Rightarrow> 'z replies_scheme" where
  "run_if p s = (case p of None \<Rightarrow> s | Some q \<Rightarrow> Run (p_done q) s)"

definition ProcessNormal :: "'db leveldb \<Rightarrow> pb_codec \<Rightarrow> Entry \<Rightarrow> Proposal option
    \<Rightarrow> ('rn, 'db) Peer \<times> 'z replies_scheme \<Rightarrow> (('rn, 'db) Peer \<times> 'z replies_scheme) outcome" where
  "ProcessNormal ldb pb entry p st =
     (let (peer, s) = st
      in case ParseFromString pb (entry_data entry) of
           None \<Rightarrow> fatal ''failed to parse from str''
         | Some req \<Rightarrow>
             (case cmd_type req of
                kInvalid \<Rightarrow> Inr (peer, s)
              | kGet \<Rightarrow> obind (DiskStorage_Get ldb (kv_db peer) (get_key (get_req req))) (\<lambda>val.
                  Inr (peer, case p of None \<Rightarrow> s
                             | Some q \<Rightarrow> Run (p_done q) (set_get_value (p_resp q) val s)))
              | kPut \<Rightarrow> obind (DiskStorage_Put ldb (kv_db peer) (put_key (put_req req)) (put_value (put_req req)))
                  (\<lambda>d. Inr (peer\<lparr>kv_db := d\<rparr>, run_if p s))
              | kDel \<Rightarrow> obind (DiskStorage_Del ldb (kv_db peer) (del_key (del_req req)))
                  (\<lambda>d. Inr (peer\<lparr>kv_db := d\<rparr>, run_if p s))
              | CmdType_unnamed n \<Rightarrow> fatal ''should not come here.''))"

definition ProcessConfChange :: "Entry \<Rightarrow> Proposal option
    \<Rightarrow> ('rn, 'db) Peer \<times> 'z replies_scheme \<Rightarrow> (('rn, 'db) Peer \<times> 'z replies_scheme) outcome" where
  "ProcessConfChange entry p st = Inr st"

text \<open>The first half of \<^verbatim>\<open>ProcessEntry\<close>: look the proposal up, or reject all of them.\<close>

definition claim_proposal :: "('rn, 'ms) jraft \<Rightarrow> Entry \<Rightarrow> ('rn, 'db) Peer \<times> 'z replies_scheme
    \<Rightarrow> Proposal option \<times> ('rn, 'db) Peer \<times> 'z replies_scheme" where
  "claim_proposal jr entry st =
     (let (peer, s) = st
      in if IsLeader jr peer
         then let (p, q, s1) = GetProposal (entry_index entry) (entry_term entry) (proposals peer) s
              in (p, peer\<lparr>proposals := q\<rparr>, s1)
         else let (q, s1) = CallbackAll (proposals peer) s
              in (None, peer\<lparr>proposals := q\<rparr>, s1))"

definition ProcessEntry :: "('rn, 'ms) jraft \<Rightarrow> 'db leveldb \<Rightarrow> pb_codec \<Rightarrow> Entry
    \<Rightarrow> ('rn, 'db) Peer \<times> 'z replies_scheme \<Rightarrow> (('rn, 'db) Peer \<times> 'z replies_scheme) outcome" where
  "ProcessEntry jr ldb pb entry st =
     (let (p, st1) = claim_proposal jr entry st
      in if entry_type entry = kEntryNormal then ProcessNormal ldb pb entry p st1
         else ProcessConfChange entry p st1)"

definition ProcessEntries :: "('rn, 'ms) jraft \<Rightarrow> 'db leveldb \<Rightarrow> pb_codec \<Rightarrow> Entry list
    \<Rightarrow> ('rn, 'db) Peer \<times> 'z replies_scheme \<Rightarrow> (('rn, 'db) Peer \<times> 'z replies_scheme) outcome" where
  "ProcessEntries jr ldb pb entries st = ofold (ProcessEntry jr ldb pb) entries st"

definition HandleRaftReady :: "('rn, 'ms) jraft \<Rightarrow> 'db leveldb \<Rightarrow> pb_codec \<Rightarrow> (RpcClient \<Rightarrow> int)
    \<Rightarrow> ('rn, 'db) Peer \<times> 'z net_scheme \<Rightarrow> (('rn, 'db) Peer \<times> 'z net_scheme) outcome" where
  "HandleRaftReady jr ldb pb connect st =
     (let (p, s) = st
      in if \<not> rn_HasReady jr (raw_node p) then Inr (p, s)
         else
           let (rd, n) = rn_GetReady jr (raw_node p);
               n1 = (if rd_entries rd \<noteq> [] then rn_Append jr n (rd_entries rd) else n);
               st1 = (p\<lparr>raw_node := n1\<rparr>, s)
           in obind (if rd_messages rd \<noteq> [] then SendMsgs connect (rd_messages rd) st1 else Inr st1) (\<lambda>st2.
              obind (if rd_committed_entries rd \<noteq> []
                     then ProcessEntries jr ldb pb (rd_committed_entries rd) st2 else Inr st2) (\<lambda>(p3, s3).
              Inr (p3\<lparr>raw_node := rn_Advance jr (raw_node p3) rd\<rparr>, s3))))"

definition Tick :: "('rn, 'ms) jraft \<Rightarrow> 'db leveldb \<Rightarrow> pb_codec \<Rightarrow> (RpcClient \<Rightarrow> int)
    \<Rightarrow> ('rn, 'db) Peer \<times> 'z net_scheme \<Rightarrow> (('rn, 'db) Peer \<times> 'z net_scheme) outcome" where
  "Tick jr ldb pb connect st =
     (let (p, s) = st in HandleRaftReady jr ldb pb connect (p\<lparr>raw_node := rn_Tick jr (raw_node p)\<rparr>, s))"

end
