(* ===== verification/Instances.thy ===== *)
theory Instances
  imports Peer
begin

text \<open>
  Concrete collaborators, for evaluating the model at small inputs: a codec for \<^verbatim>\<open>KvReq\<close>
  and a Raft group of one node that commits what it is given. They are not models of the libraries
  the server links against; they show that the hypotheses about those libraries can hold together.
\<close>

section \<open>A codec\<close>

definition mk_get :: "bytes \<Rightarrow> KvReq" where
  "mk_get k = default_KvReq\<lparr>cmd_type := kGet, get_req_opt := Some \<lparr>get_key = k\<rparr>\<rparr>"

definition mk_put :: "bytes \<Rightarrow> bytes \<Rightarrow> KvReq" where
  "mk_put k v = default_KvReq\<lparr>cmd_type := kPut, put_req_opt := Some \<lparr>put_key = k, put_value = v\<rparr>\<rparr>"

definition mk_del :: "bytes \<Rightarrow> KvReq" where
  "mk_del k = default_KvReq\<lparr>cmd_type := kDel, del_req_opt := Some \<lparr>del_key = k\<rparr>\<rparr>"

text \<open>What a caller of the serialisation relies on: parsing inverts printing.\<close>

definition codec_contract :: "pb_codec \<Rightarrow> bool" where
  "codec_contract pb \<longleftrightarrow> (\<forall>r s. SerializeToString pb r = Some s \<longrightarrow> ParseFromString pb s = Some r)"

definition demo_print :: "KvReq \<Rightarrow> bytes option" where
  "demo_print r =
     (if r = default_KvReq then Some []
      else if r = mk_get (get_key (get_req r)) then Some (CHR ''g'' # get_key (get_req r))
      else if r = mk_del (del_key (del_req r)) then Some (CHR ''d'' # del_key (del_req r))
      else if r = mk_put (put_key (put_req r)) (put_value (put_req r))
        then Some (CHR ''p'' # to_dec (length (put_key (put_req r))) @ CHR '','' # put_key (put_req r)
               @ put_value (put_req r))
      else None)"

definition demo_parse :: "bytes \<Rightarrow> KvReq option" where
  "demo_parse s =
     (case s of [] \<Rightarrow> Some default_KvReq
      | c # cs \<Rightarrow>
          if c = CHR ''g'' then Some (mk_get cs)
          else if c = CHR ''d'' then Some (mk_del cs)
          else if c = CHR ''u'' then Some (default_KvReq\<lparr>cmd_type := CmdType_unnamed 7\<rparr>)
          else if c = CHR ''p'' then
            let n = scan_digits 0 cs; r = drop 1 (dropWhile is_digit cs)
            in Some (mk_put (take n r) (drop n r))
          else None)"

definition demo_codec :: pb_codec where
  "demo_codec = \<lparr>SerializeToString = demo_print, ParseFromString = demo_parse\<rparr>"

lemma mk_simps [simp]:
  "cmd_type (mk_get k) = kGet" "cmd_type (mk_put k v) = kPut" "cmd_type (mk_del k) = kDel"
  "get_key (get_req (mk_get k)) = k" "put_key (put_req (mk_put k v)) = k"
  "put_value (put_req (mk_put k v)) = v" "del_key (del_req (mk_del k)) = k"
  by (simp_all add: mk_get_def mk_put_def mk_del_def get_req_def put_req_def del_req_def)

lemma mk_neq [simp]:
  "mk_get k \<noteq> default_KvReq" "mk_put k v \<noteq> default_KvReq" "mk_del k \<noteq> default_KvReq"
  "mk_put k v \<noteq> mk_get k'" "mk_del k \<noteq> mk_get k'" "mk_put k v \<noteq> mk_del k'" "mk_get k \<noteq> mk_del k'"
  by (simp_all add: mk_get_def mk_put_def mk_del_def default_KvReq_def)

lemma scan_digits_stop: "scan_digits 0 (to_dec n @ CHR '','' # r) = n"
  by (simp add: scan_digits_to_dec is_digit_def)

lemma dropWhile_to_dec: "dropWhile is_digit (to_dec n @ CHR '','' # r) = CHR '','' # r"
  by (subst dropWhile_append2) (auto simp: to_dec_digits, simp add: is_digit_def)

lemma demo_codec_contract: "codec_contract demo_codec"
  by (auto simp: codec_contract_def demo_codec_def demo_print_def demo_parse_def Let_def
      scan_digits_stop dropWhile_to_dec split: if_splits)

lemma demo_print_put: "demo_print (mk_put ''a'' ''1'') = Some ''p1,a1''"
  by (simp add: demo_print_def to_dec.simps digit_def char_of_def bit_0)

section \<open>A Raft group of one node\<close>

record solo =
  so_leader :: bool
  so_term :: u64
  so_log :: "Entry list"
  so_ready :: Ready
  so_drop :: nat \<comment> \<open>how many of the next proposals the node drops\<close>

definition solo_entry :: "solo \<Rightarrow> bytes \<Rightarrow> Entry" where
  "solo_entry n d = \<lparr>entry_term = so_term n, entry_index = of_nat (length (so_log n)) + 1,
     entry_type = kEntryNormal, entry_data = d\<rparr>"

definition solo_propose :: "solo \<Rightarrow> bytes \<Rightarrow> solo" where
  "solo_propose n d =
     (if \<not> so_leader n then n
      else if so_drop n > 0 then n\<lparr>so_drop := so_drop n - 1\<rparr>
      else n\<lparr>so_log := so_log n @ [solo_entry n d],
             so_ready := (so_ready n)\<lparr>rd_entries := rd_entries (so_ready n) @ [solo_entry n d],
               rd_committed_entries := rd_committed_entries (so_ready n) @ [solo_entry n d]\<rparr>\<rparr>)"

definition no_ready :: Ready where
  "no_ready = \<lparr>rd_entries = [], rd_messages = [], rd_committed_entries = []\<rparr>"

definition empty_snapshot :: Snapshot where
  "empty_snapshot = \<lparr>snap_data = [], metadata = \<lparr>conf_state = \<lparr>voters = [], learners = [],
     voters_outgoing = [], learners_next = [], auto_leave = False\<rparr>, snap_index = 0, snap_term = 0\<rparr>\<rparr>"

definition solo_new :: "bool \<Rightarrow> u64 \<Rightarrow> nat \<Rightarrow> solo" where
  "solo_new l t k = \<lparr>so_leader = l, so_term = t, so_log = [], so_ready = no_ready, so_drop = k\<rparr>"

definition solo_raft :: "(solo, Snapshot) jraft" where
  "solo_raft = \<lparr>cfg_Validate = Inr, ms_GetSnapshot = (\<lambda>ms. (kOk, ms)), ms_set_snapshot = (\<lambda>_ s. s),
     rn_new = (\<lambda>_ _. Inr (solo_new True 1 0)), rn_Tick = id, rn_Step = (\<lambda>n _. (kOk, n)),
     rn_Propose = solo_propose, rn_HasReady = (\<lambda>n. so_ready n \<noteq> no_ready),
     rn_GetReady = (\<lambda>n. (so_ready n, n)), rn_Append = (\<lambda>n _. n),
     rn_Advance = (\<lambda>n _. n\<lparr>so_ready := no_ready\<rparr>), rn_IsLeader = so_leader, rn_term = so_term,
     rn_LastIndex = (\<lambda>n. of_nat (length (so_log n)))\<rparr>"

section \<open>A peer, a host and entries for evaluation\<close>

type_synonym demo_peer = "(solo, (bytes \<times> bytes) list) Peer"

definition demo_member :: "u64 \<Rightarrow> GroupMember" where
  "demo_member h = \<lparr>gm_host_id = h, gm_peer_id = 1, gm_ip = ''127.0.0.1'', gm_port = 10000\<rparr>"

definition demo_peer :: "solo \<Rightarrow> (bytes \<times> bytes) list \<Rightarrow> Proposal list \<Rightarrow> demo_peer" where
  "demo_peer n d q = \<lparr>self = demo_member 1, worker = 0,
     peers = [(1, demo_member 1), (2, demo_member 2)], raw_node = n,
     kv_db = \<lparr>db_path = ''host/peer_1'', db = d\<rparr>, proposals = q\<rparr>"

definition demo_replies :: replies where
  "demo_replies = \<lparr>resps = \<lambda>_. default_KvResp, runs = []\<rparr>"

definition demo_net :: net where
  "demo_net = \<lparr>resps = \<lambda>_. default_KvResp, runs = [], rpc_cli_mgr = Map.empty, sent = [],
     next_obj = 0, live_objs = {}, awaiting = []\<rparr>"

definition demo_entry :: "u64 \<Rightarrow> u64 \<Rightarrow> bytes \<Rightarrow> Entry" where
  "demo_entry t i d = \<lparr>entry_term = t, entry_index = i, entry_type = kEntryNormal, entry_data = d\<rparr>"

definition demo_message :: "u64 \<Rightarrow> Message" where
  "demo_message h = \<lparr>msg_type = kMsgHeartbeat, msg_to = h, msg_from = 1, msg_term = 1, log_term = 0,
     msg_index = 0, msg_entries = [], msg_commit = 0, msg_snapshot = None, msg_reject = False,
     reject_hint = 0, msg_context = []\<rparr>"

lemmas solo_defs = solo_raft_def solo_new_def solo_propose_def solo_entry_def no_ready_def
lemmas demo_codec_defs = demo_codec_def demo_parse_def demo_print_def scan_digits.simps is_digit_def
  digit_val_def
lemmas demo_defs = demo_peer_def demo_member_def demo_replies_def demo_net_def demo_entry_def demo_message_def
lemmas store_eval = DiskStorage_defs mem_leveldb_def disk_contents_def
lemmas peer_eval = ProcessEntries_def ProcessEntry_def claim_proposal_def ProcessNormal_def
  ProcessConfChange_def run_if_def CallbackAll_def IsLeader_def

end
