(* ===== verification/Peer_Log.thy ===== *)
theory Peer_Log
  imports Instances
begin

text \<open>
  Applying committed entries (\<^verbatim>\<open>Peer::ProcessEntries\<close>): a peer is a deterministic state
  machine over the log. The lemmas separate the effect of an entry on the store from its effect on
  the pending proposals, show that the former depends on the entry and the store only, and relate
  it to a finite map under the documented behaviour of LevelDB.
\<close>

section \<open>Deterministic state machines over a log\<close>

text \<open>
  A machine whose steps, seen through \<open>view\<close>, are those of \<open>vstep\<close>: success and faults
  of a step depend on the view only.
\<close>

locale log_machine =
  fixes step :: "'e \<Rightarrow> 's \<Rightarrow> 's outcome"
    and view :: "'s \<Rightarrow> 'v"
    and vstep :: "'e \<Rightarrow> 'v \<Rightarrow> 'v outcome"
  assumes step_view: "map_sum id view (step e s) = vstep e (view s)"
begin

lemma step_view_Inr: "step e s = Inr s' \<Longrightarrow> vstep e (view s) = Inr (view s')"
  using step_view [of e s] by simp

lemma step_view_Inl: "step e s = Inl f \<Longrightarrow> vstep e (view s) = Inl f"
  using step_view [of e s] by simp

lemma run_view: "map_sum id view (ofold step es s) = ofold vstep es (view s)"
proof (induction es arbitrary: s)
  case (Cons e es)
  then show ?case
    by (cases "step e s") (auto dest: step_view_Inr step_view_Inl)
qed simp

lemma run_view_Inr: "ofold step es s = Inr s' \<Longrightarrow> ofold vstep es (view s) = Inr (view s')"
  using run_view [of es s] by simp

text \<open>Two machines with the same view agree on every log, faults included.\<close>

lemma runs_agree:
  "view s = view t \<Longrightarrow> map_sum id view (ofold step es s) = map_sum id view (ofold step es t)"
  by (simp add: run_view)

text \<open>A machine that has applied a prefix of the log catches up with one that has applied it all.\<close>

lemma catch_up:
  assumes "view s = view t" and "ofold step es s = Inr s'" and "ofold step (es @ es') t = Inr t'"
  shows "ofold vstep es' (view s') = Inr (view t')"
  using run_view_Inr [OF assms(2)] run_view_Inr [OF assms(3)] assms(1) by (simp add: ofold_append)

end

section \<open>The effect of an entry on the store\<close>

definition apply_entry ::
  "'db leveldb \<Rightarrow> pb_codec \<Rightarrow> Entry \<Rightarrow> 'db DiskStorage \<Rightarrow> 'db DiskStorage outcome" where
  "apply_entry ldb pb e d =
     (if entry_type e \<noteq> kEntryNormal then Inr d
      else case ParseFromString pb (entry_data e) of
        None \<Rightarrow> fatal ''failed to parse from str''
      | Some req \<Rightarrow> (case cmd_type req of
          kInvalid \<Rightarrow> Inr d
        | kGet \<Rightarrow> obind (DiskStorage_Get ldb d (get_key (get_req req))) (\<lambda>_. Inr d)
        | kPut \<Rightarrow> DiskStorage_Put ldb d (put_key (put_req req)) (put_value (put_req req))
        | kDel \<Rightarrow> DiskStorage_Del ldb d (del_key (del_req req))
        | CmdType_unnamed n \<Rightarrow> fatal ''should not come here.''))"

definition store_of :: "('rn, 'db) Peer \<times> 'z \<Rightarrow> 'db DiskStorage" where
  "store_of st = kv_db (fst st)"

lemma claim_proposal_frame:
  assumes "claim_proposal jr e (peer, s) = (p, peer', s')"
  shows "raw_node peer' = raw_node peer" "kv_db peer' = kv_db peer" "peers peer' = peers peer"
    "self peer' = self peer" "worker peer' = worker peer" "replies.more s' = replies.more s"
  using assms
  by (auto simp: claim_proposal_def CallbackAll_def GetProposal_spec Let_def split: prod.splits if_splits)

lemma ProcessNormal_store:
  assumes "entry_type e = kEntryNormal"
  shows "map_sum id store_of (ProcessNormal ldb pb e p (peer, s)) = apply_entry ldb pb e (kv_db peer)"
  using assms
  by (auto simp: ProcessNormal_def apply_entry_def store_of_def obind_def
      split: option.splits CmdType.splits sum.splits)

lemma ProcessEntry_store:
  "map_sum id store_of (ProcessEntry jr ldb pb e st) = apply_entry ldb pb e (store_of st)"
proof (cases st)
  case (Pair peer s)
  obtain p peer' s' where c: "claim_proposal jr e (peer, s) = (p, peer', s')"
    by (cases "claim_proposal jr e (peer, s)") auto
  show ?thesis
  proof (cases "entry_type e = kEntryNormal")
    case True
    with Pair c claim_proposal_frame(2) [OF c] ProcessNormal_store [OF True, of ldb pb p peer' s']
    show ?thesis
      by (simp add: ProcessEntry_def store_of_def)
  next
    case False
    with Pair c claim_proposal_frame(2) [OF c] show ?thesis
      by (simp add: ProcessEntry_def ProcessConfChange_def apply_entry_def store_of_def)
  qed
qed

interpretation peer_log: log_machine "ProcessEntry jr ldb pb" store_of "apply_entry ldb pb"
  for jr ldb pb
  by unfold_locales (rule ProcessEntry_store)

section \<open>Entries as commands on a finite map\<close>

definition entry_op :: "pb_codec \<Rightarrow> Entry \<Rightarrow> store_op option" where
  "entry_op pb e =
     (if entry_type e \<noteq> kEntryNormal then None
      else case ParseFromString pb (entry_data e) of None \<Rightarrow> None
      | Some req \<Rightarrow> (case cmd_type req of
          kGet \<Rightarrow> Some (SGet (get_key (get_req req)))
        | kPut \<Rightarrow> Some (SPut (put_key (put_req req)) (put_value (put_req req)))
        | kDel \<Rightarrow> Some (SDel (del_key (del_req req)))
        | _ \<Rightarrow> None))"

text \<open>The contents of the store after a log, as a function of the contents before it.\<close>

definition entry_effect :: "pb_codec \<Rightarrow> Entry \<Rightarrow> (bytes \<rightharpoonup> bytes) \<Rightarrow> (bytes \<rightharpoonup> bytes)" where
  "entry_effect pb e m = (case entry_op pb e of None \<Rightarrow> m | Some c \<Rightarrow> op_effect c m)"

definition replay :: "pb_codec \<Rightarrow> Entry list \<Rightarrow> (bytes \<rightharpoonup> bytes) \<Rightarrow> (bytes \<rightharpoonup> bytes)" where
  "replay pb es m = fold (entry_effect pb) es m"

text \<open>Whether a peer can apply an entry to a store with the given contents.\<close>

definition entry_legal :: "pb_codec \<Rightarrow> Entry \<Rightarrow> (bytes \<rightharpoonup> bytes) \<Rightarrow> bool" where
  "entry_legal pb e m \<longleftrightarrow>
     entry_type e \<noteq> kEntryNormal \<or>
     (case ParseFromString pb (entry_data e) of None \<Rightarrow> False
      | Some req \<Rightarrow> (case cmd_type req of
          kGet \<Rightarrow> m (get_key (get_req req)) \<noteq> None
        | CmdType_unnamed n \<Rightarrow> False
        | _ \<Rightarrow> True))"

fun log_legal :: "pb_codec \<Rightarrow> Entry list \<Rightarrow> (bytes \<rightharpoonup> bytes) \<Rightarrow> bool" where
  "log_legal pb [] m \<longleftrightarrow> True"
| "log_legal pb (e # es) m \<longleftrightarrow> entry_legal pb e m \<and> log_legal pb es (entry_effect pb e m)"

lemma replay_Nil [simp]: "replay pb [] m = m"
  by (simp add: replay_def)

lemma replay_Cons [simp]: "replay pb (e # es) m = replay pb es (entry_effect pb e m)"
  by (simp add: replay_def)

lemma replay_append: "replay pb (es @ es') m = replay pb es' (replay pb es m)"
  by (simp add: replay_def)

lemma log_legal_append:
  "log_legal pb (es @ es') m \<longleftrightarrow> log_legal pb es m \<and> log_legal pb es' (replay pb es m)"
  by (induction es arbitrary: m) auto

lemmas entry_defs = apply_entry_def entry_effect_def entry_op_def entry_legal_def

lemma apply_entry_effect:
  assumes "leveldb_contract ldb view" and "apply_entry ldb pb e d = Inr d'"
  shows "disk_contents view d' = entry_effect pb e (disk_contents view d)"
    and "entry_legal pb e (disk_contents view d)"
proof -
  note store = DiskStorage_kv_store [OF assms(1)]
  show "disk_contents view d' = entry_effect pb e (disk_contents view d)"
    using assms(2) kv_store.put_contents [OF store] kv_store.del_contents [OF store]
    by (auto simp: entry_defs split: if_splits option.splits CmdType.splits)
  show "entry_legal pb e (disk_contents view d)"
    using assms(2)
    by (auto simp: entry_defs split: if_splits option.splits CmdType.splits
        dest: kv_store.get_sound [OF store])
qed

lemma apply_entry_legal:
  assumes "leveldb_contract ldb view" and "leveldb_reliable ldb view"
    and "entry_legal pb e (disk_contents view d)"
  shows "\<exists>d'. apply_entry ldb pb e d = Inr d'"
proof -
  note store = DiskStorage_reliable_kv_store [OF assms(1,2)]
  show ?thesis
    using assms(3) reliable_kv_store.put_returns [OF store] reliable_kv_store.del_returns [OF store]
    by (auto simp: entry_defs reliable_kv_store.get_present [OF store]
        split: if_splits option.splits CmdType.splits)
qed

lemma apply_entries_effect:
  assumes "leveldb_contract ldb view" and "ofold (apply_entry ldb pb) es d = Inr d'"
  shows "disk_contents view d' = replay pb es (disk_contents view d) \<and>
    log_legal pb es (disk_contents view d)"
  using assms(2)
proof (induction es arbitrary: d)
  case (Cons e es)
  then obtain d1 where d1: "apply_entry ldb pb e d = Inr d1" "ofold (apply_entry ldb pb) es d1 = Inr d'"
    by auto
  from apply_entry_effect [OF assms(1) d1(1)] Cons.IH [OF d1(2)] show ?case
    by simp
qed simp

lemma apply_entries_legal:
  assumes "leveldb_contract ldb view" and "leveldb_reliable ldb view"
    and "log_legal pb es (disk_contents view d)"
  shows "\<exists>d'. ofold (apply_entry ldb pb) es d = Inr d'"
  using assms(3)
proof (induction es arbitrary: d)
  case (Cons e es)
  then obtain d1 where d1: "apply_entry ldb pb e d = Inr d1"
    using apply_entry_legal [OF assms(1,2)] by fastforce
  with Cons.prems apply_entry_effect(1) [OF assms(1) d1] show ?case
    using Cons.IH [of d1] by simp
qed simp

section \<open>Batches of entries\<close>

lemma ProcessEntries_store:
  "ProcessEntries jr ldb pb es (peer, s) = Inr (peer', s') \<Longrightarrow>
     ofold (apply_entry ldb pb) es (kv_db peer) = Inr (kv_db peer')"
  using peer_log.run_view_Inr [of jr ldb pb es "(peer, s)" "(peer', s')"]
  by (simp add: ProcessEntries_def store_of_def)

lemma ProcessEntries_returns_iff:
  "(\<exists>st'. ProcessEntries jr ldb pb es (peer, s) = Inr st') \<longleftrightarrow>
     (\<exists>d'. ofold (apply_entry ldb pb) es (kv_db peer) = Inr d')"
  using peer_log.run_view [of jr ldb pb es "(peer, s)", symmetric]
  by (cases "ofold (ProcessEntry jr ldb pb) es (peer, s)") (auto simp: ProcessEntries_def store_of_def)

lemma apply_entries_legal_iff:
  assumes "leveldb_contract ldb view" and "leveldb_reliable ldb view"
  shows "(\<exists>d'. ofold (apply_entry ldb pb) es d = Inr d') \<longleftrightarrow> log_legal pb es (disk_contents view d)"
  using apply_entries_legal [OF assms] apply_entries_effect [OF assms(1)] by blast

section \<open>Properties\<close>

text \<open>
  C12: the store of a peer is the replay of its log. When \<^verbatim>\<open>ProcessEntries\<close> returns, the
  contents of the peer's database are the contents before, changed by the Put and Del commands of
  the entries in log order and by nothing else: no-ops, Gets, configuration changes, pending
  proposals and the role of the peer leave no trace in it.
\<close>

theorem ProcessEntries_refines_replay:
  assumes "leveldb_contract ldb view"
    and "ProcessEntries jr ldb pb es (peer, s) = Inr (peer', s')"
  shows "disk_contents view (kv_db peer') = replay pb es (disk_contents view (kv_db peer))"
  using apply_entries_effect [OF assms(1) ProcessEntries_store [OF assms(2)]] by blast

theorem ProcessEntries_refines_replay_witness:
  "disk_contents map_of \<lparr>db_path = ''host/peer_1'', db = [(''b'', ''2''), (''a'', ''1'')]\<rparr> =
     replay demo_codec [demo_entry 1 1 ''p1,a1'', demo_entry 1 2 ''p1,b2''] Map.empty"
proof -
  have "ProcessEntries solo_raft mem_leveldb demo_codec [demo_entry 1 1 ''p1,a1'', demo_entry 1 2 ''p1,b2'']
      (demo_peer (solo_new True 1 0) [] [], demo_replies) =
      Inr (demo_peer (solo_new True 1 0) [(''b'', ''2''), (''a'', ''1'')] [], demo_replies)"
    by (simp add: peer_eval demo_defs solo_defs demo_codec_defs store_eval)
  from ProcessEntries_refines_replay [OF mem_leveldb_contract this] show ?thesis
    by (simp add: demo_defs disk_contents_def)
qed

text \<open>
  C13: exactly which logs a replica survives. On a database that reports no I/O errors,
  \<^verbatim>\<open>ProcessEntries\<close> reaches its end if and only if every normal entry parses, carries one
  of the four named commands, and every Get finds its key present at its position of the log. In
  every other case it reaches a \<^verbatim>\<open>JLOG_FATAL\<close>.
\<close>

theorem ProcessEntries_survives_iff:
  assumes "leveldb_contract ldb view" and "leveldb_reliable ldb view"
  shows "(\<exists>st'. ProcessEntries jr ldb pb es (peer, s) = Inr st')
    \<longleftrightarrow> log_legal pb es (disk_contents view (kv_db peer))"
  unfolding ProcessEntries_returns_iff by (rule apply_entries_legal_iff [OF assms])

theorem ProcessEntries_survives_iff_witness:
  "(\<exists>st'. ProcessEntries solo_raft mem_leveldb demo_codec [demo_entry 1 1 ''p1,a1'', demo_entry 1 2 ''ga'']
      (demo_peer (solo_new True 1 0) [] [], demo_replies) = Inr st')
   \<and> \<not> (\<exists>st'. ProcessEntries solo_raft mem_leveldb demo_codec [demo_entry 1 1 ''p1,a1'', demo_entry 1 2 ''gb'']
      (demo_peer (solo_new True 1 0) [] [], demo_replies) = Inr st')"
  unfolding ProcessEntries_survives_iff [OF mem_leveldb_contract mem_leveldb_reliable]
  by (simp add: demo_defs demo_codec_defs disk_contents_def entry_defs)

text \<open>
  C22: replicas agree. Two peers whose stores have the same contents, with whatever roles, terms,
  pending proposals and reply states, and on databases of different implementations, either both
  survive the same entries, ending with the same contents, or both reach a
  \<^verbatim>\<open>JLOG_FATAL\<close>.
\<close>

theorem replicas_agree:
  assumes "leveldb_contract ldb view" and "leveldb_reliable ldb view"
    and "leveldb_contract ldb' view'" and "leveldb_reliable ldb' view'"
    and "disk_contents view (kv_db a) = disk_contents view' (kv_db b)"
  shows "(case (ProcessEntries jr ldb pb es (a, s), ProcessEntries jr' ldb' pb es (b, t)) of
      (Inr (a', s'), Inr (b', t')) \<Rightarrow> disk_contents view (kv_db a') = disk_contents view' (kv_db b')
    | (Inl f, Inl g) \<Rightarrow> True
    | _ \<Rightarrow> False)"
proof -
  have same: "(\<exists>r. ProcessEntries jr ldb pb es (a, s) = Inr r) \<longleftrightarrow>
      (\<exists>r. ProcessEntries jr' ldb' pb es (b, t) = Inr r)"
    unfolding ProcessEntries_returns_iff apply_entries_legal_iff [OF assms(1,2)]
      apply_entries_legal_iff [OF assms(3,4)] assms(5) ..
  have contents: "disk_contents view (kv_db a') = disk_contents view' (kv_db b')"
    if "ProcessEntries jr ldb pb es (a, s) = Inr (a', s')" "ProcessEntries jr' ldb' pb es (b, t) = Inr (b', t')"
    for a' s' b' t'
    using apply_entries_effect [OF assms(1) ProcessEntries_store [OF that(1)]]
      apply_entries_effect [OF assms(3) ProcessEntries_store [OF that(2)]] assms(5) by simp
  show ?thesis
    using same contents
    by (cases "ProcessEntries jr ldb pb es (a, s)"; cases "ProcessEntries jr' ldb' pb es (b, t)")
      (auto split: prod.splits)
qed

theorem replicas_agree_witness:
  "(case (ProcessEntries solo_raft mem_leveldb demo_codec [demo_entry 1 1 ''p1,a1'']
        (demo_peer (solo_new True 1 0) [] [], demo_replies),
      ProcessEntries solo_raft mem_leveldb demo_codec [demo_entry 1 1 ''p1,a1'']
        (demo_peer (solo_new False 1 0) [] [new_Proposal 9 1 4 5], demo_replies)) of
      (Inr (a', s'), Inr (b', t')) \<Rightarrow> disk_contents map_of (kv_db a') = disk_contents map_of (kv_db b')
    | (Inl f, Inl g) \<Rightarrow> True
    | _ \<Rightarrow> False)"
  by (rule replicas_agree [OF mem_leveldb_contract mem_leveldb_reliable mem_leveldb_contract
        mem_leveldb_reliable]) (simp add: demo_defs)

end
