(* ===== verification/Peer_Answers.thy ===== *)
theory Peer_Answers
  imports Peer_Log
begin

text \<open>
  What clients are told: how \<^verbatim>\<open>ProposeKvOp\<close> queues proposals and how
  \<^verbatim>\<open>ProcessEntry\<close> answers them. The lemmas account for every completion closure, relate an
  answer to the position of the command in the log, and exhibit the cases in which a client gets no
  answer, or one that does not describe what happened to its command.
\<close>

section \<open>Accounting for completion closures\<close>

locale closure_accounting =
  fixes step :: "'e \<Rightarrow> 's \<Rightarrow> 's outcome"
    and answered :: "'s \<Rightarrow> closure_ptr list"
    and waiting :: "'s \<Rightarrow> closure_ptr list"
  assumes account: "step e s = Inr s' \<Longrightarrow>
      mset (answered s') + mset (waiting s') \<subseteq># mset (answered s) + mset (waiting s)"
    and grows: "step e s = Inr s' \<Longrightarrow> \<exists>more. answered s' = answered s @ more"
begin

lemma run_account:
  "ofold step es s = Inr s' \<Longrightarrow>
     mset (answered s') + mset (waiting s') \<subseteq># mset (answered s) + mset (waiting s)"
proof (induction es arbitrary: s)
  case (Cons e es)
  then show ?case
    by (auto dest!: account intro: subset_mset.order_trans)
qed simp

lemma run_grows: "ofold step es s = Inr s' \<Longrightarrow> \<exists>more. answered s' = answered s @ more"
proof (induction es arbitrary: s)
  case (Cons e es)
  then obtain t where "step e s = Inr t" "ofold step es t = Inr s'"
    by auto
  with Cons.IH [of t] grows [of e s t] show ?case
    by auto
qed simp

lemma at_most_once:
  assumes "ofold step es s = Inr s'" and "distinct (answered s @ waiting s)"
  shows "distinct (answered s' @ waiting s')"
proof -
  have "mset (answered s' @ waiting s') \<subseteq># mset (answered s @ waiting s)"
    using run_account [OF assms(1)] by simp
  then show ?thesis
    using assms(2) by (rule distinct_submset)
qed

end

section \<open>The effect of an entry on the queue\<close>

text \<open>The proposals that processing an entry rejects.\<close>

definition rejects :: "('rn, 'ms) jraft \<Rightarrow> Entry \<Rightarrow> ('rn, 'db) Peer \<Rightarrow> Proposal list" where
  "rejects jr e peer =
     (if IsLeader jr peer then takeWhile (older (entry_index e) (entry_term e)) (proposals peer)
      else proposals peer)"

lemma claim_proposal_queue:
  assumes "claim_proposal jr e (peer, s) = (p, peer', s')"
  shows "proposals peer = rejects jr e peer @ (case p of None \<Rightarrow> [] | Some q \<Rightarrow> [q]) @ proposals peer'"
    and "s' = fold reject (rejects jr e peer) s"
proof -
  show "s' = fold reject (rejects jr e peer) s"
    using assms
    by (auto simp: claim_proposal_def rejects_def GetProposal_spec CallbackAll_def split: prod.splits if_splits)
  show "proposals peer = rejects jr e peer @ (case p of None \<Rightarrow> [] | Some q \<Rightarrow> [q]) @ proposals peer'"
  proof (cases "IsLeader jr peer")
    case True
    obtain f q' where tm: "take_match (entry_index e) (entry_term e)
        (dropWhile (older (entry_index e) (entry_term e)) (proposals peer)) = (f, q')"
      by fastforce
    with assms True have "p = f" "proposals peer' = q'"
      by (auto simp: claim_proposal_def GetProposal_spec)
    with True take_match_append [OF tm] show ?thesis
      by (simp add: rejects_def) (metis takeWhile_dropWhile_id)
  next
    case False
    with assms show ?thesis
      by (auto simp: claim_proposal_def rejects_def CallbackAll_def)
  qed
qed

lemma claim_proposal_found:
  assumes "claim_proposal jr e (peer, s) = (Some p, peer', s')"
  shows "IsLeader jr peer \<and> matches (entry_index e) (entry_term e) p"
  using assms
  by (auto simp: claim_proposal_def CallbackAll_def GetProposal_spec dest: take_match_found
      split: if_splits prod.splits)

text \<open>A normal entry runs the closure of its proposal exactly when it carries a command.\<close>

lemma ProcessNormal_ran:
  assumes "ProcessNormal ldb pb e p (peer, s) = Inr (peer', s')"
  shows "proposals peer' = proposals peer" "raw_node peer' = raw_node peer"
    "replies.more s' = replies.more s"
    "ran s' = ran s @ (if ParseFromString pb (entry_data e) = None
        \<or> (\<exists>req. ParseFromString pb (entry_data e) = Some req \<and> cmd_type req = kInvalid) then []
      else (case p of None \<Rightarrow> [] | Some q \<Rightarrow> [p_done q]))"
  using assms
  by (auto simp: ProcessNormal_def run_if_def split: option.splits CmdType.splits)

lemma ProcessEntry_queue:
  assumes "ProcessEntry jr ldb pb e (peer, s) = Inr (peer', s')"
  obtains p peer1 s1 where "claim_proposal jr e (peer, s) = (p, peer1, s1)"
    and "proposals peer' = proposals peer1" and "raw_node peer' = raw_node peer"
    and "replies.more s' = replies.more s"
    and "ran s' = ran s1 @ (if entry_op pb e = None then [] else (case p of None \<Rightarrow> [] | Some q \<Rightarrow> [p_done q]))"
proof -
  obtain p peer1 s1 where c: "claim_proposal jr e (peer, s) = (p, peer1, s1)"
    by (cases "claim_proposal jr e (peer, s)") auto
  have "proposals peer' = proposals peer1 \<and> raw_node peer' = raw_node peer1 \<and>
      replies.more s' = replies.more s1 \<and>
      ran s' = ran s1 @ (if entry_op pb e = None then [] else (case p of None \<Rightarrow> [] | Some q \<Rightarrow> [p_done q]))"
  proof (cases "entry_type e = kEntryNormal")
    case True
    with assms c have n: "ProcessNormal ldb pb e p (peer1, s1) = Inr (peer', s')"
      by (simp add: ProcessEntry_def)
    then have "(ParseFromString pb (entry_data e) = None
        \<or> (\<exists>req. ParseFromString pb (entry_data e) = Some req \<and> cmd_type req = kInvalid))
        \<longleftrightarrow> entry_op pb e = None"
      using True by (auto simp: ProcessNormal_def entry_op_def split: option.splits CmdType.splits)
    with ProcessNormal_ran [OF n] show ?thesis
      by simp
  next
    case False
    with assms c show ?thesis
      by (auto simp: ProcessEntry_def ProcessConfChange_def entry_op_def)
  qed
  with that [OF c] claim_proposal_frame [OF c] show thesis
    by simp
qed

definition answers :: "('rn, 'db) Peer \<times> 'z replies_scheme \<Rightarrow> closure_ptr list" where
  "answers st = ran (snd st)"

definition pending :: "('rn, 'db) Peer \<times> 'z \<Rightarrow> closure_ptr list" where
  "pending st = map p_done (proposals (fst st))"

interpretation peer_closures: closure_accounting "ProcessEntry jr ldb pb" answers pending
  for jr ldb pb
proof
  fix e and st st' :: "('a, 'c) Peer \<times> 'd replies_scheme"
  assume step: "ProcessEntry jr ldb pb e st = Inr st'"
  obtain peer s peer' s' where st: "st = (peer, s)" "st' = (peer', s')"
    by fastforce
  from step st obtain p peer1 s1 where c: "claim_proposal jr e (peer, s) = (p, peer1, s1)"
    and q: "proposals peer' = proposals peer1"
    and r: "ran s' = ran s1 @ (if entry_op pb e = None then [] else (case p of None \<Rightarrow> [] | Some q \<Rightarrow> [p_done q]))"
    by (auto elim: ProcessEntry_queue)
  from r claim_proposal_queue(2) [OF c]
  show "\<exists>more. answers st' = answers st @ more"
    by (auto simp: answers_def st)
  show "mset (answers st') + mset (pending st') \<subseteq># mset (answers st) + mset (pending st)"
    using r claim_proposal_queue [OF c] q
    by (auto simp: answers_def pending_def st split: option.splits)
qed

section \<open>Proposals in log order\<close>

definition entry_before :: "Entry \<Rightarrow> Proposal \<Rightarrow> bool" where
  "entry_before e p \<longleftrightarrow> entry_term e < p_term p \<or> entry_term e = p_term p \<and> entry_index e < p_index p"

text \<open>Entries that precede a proposal in the log leave it in the queue.\<close>

lemma ProcessEntry_keeps:
  assumes "ProcessEntry jr ldb pb e (peer, s) = Inr (peer', s')" and "IsLeader jr peer"
    and "ordered (proposals peer)" and "p \<in> set (proposals peer)" and "entry_before e p"
  shows "IsLeader jr peer' \<and> ordered (proposals peer') \<and> p \<in> set (proposals peer')"
proof -
  obtain f peer1 s1 where c: "claim_proposal jr e (peer, s) = (f, peer1, s1)"
    and q: "proposals peer' = proposals peer1" and n: "raw_node peer' = raw_node peer"
    using assms(1) by (auto elim: ProcessEntry_queue)
  note split = claim_proposal_queue(1) [OF c]
  have "p \<notin> set (rejects jr e peer)"
    using assms(2,5) by (auto simp: rejects_def older_def entry_before_def dest!: set_takeWhileD)
  moreover have "f \<noteq> Some p"
    using claim_proposal_found c assms(5) by (fastforce simp: entry_before_def matches_def)
  ultimately have "p \<in> set (proposals peer1)"
    using assms(4) split by (auto split: option.splits)
  moreover have "ordered (proposals peer1)"
    using assms(3) split by (metis ordered_append_iff)
  ultimately show ?thesis
    using q n assms(2) by (simp add: IsLeader_def)
qed

lemma ProcessEntries_keeps:
  assumes "ProcessEntries jr ldb pb es (peer, s) = Inr (peer', s')" and "IsLeader jr peer"
    and "ordered (proposals peer)" and "p \<in> set (proposals peer)" and "\<forall>e\<in>set es. entry_before e p"
  shows "IsLeader jr peer' \<and> ordered (proposals peer') \<and> p \<in> set (proposals peer')"
proof -
  let ?I = "\<lambda>st. IsLeader jr (fst st) \<and> ordered (proposals (fst st)) \<and> p \<in> set (proposals (fst st))"
  have "?I (peer', s')"
  proof (rule ofold_invariant [where I = ?I])
    show "ofold (ProcessEntry jr ldb pb) es (peer, s) = Inr (peer', s')"
      using assms(1) by (simp add: ProcessEntries_def)
  next
    fix e st st'
    assume "e \<in> set es" "?I st" "ProcessEntry jr ldb pb e st = Inr st'"
    with assms(5) ProcessEntry_keeps [of jr ldb pb e "fst st" "snd st" "fst st'" "snd st'" p] show "?I st'"
      by simp
  qed (use assms(2-4) in simp)
  then show ?thesis
    by simp
qed

text \<open>The leader finds the proposal of an entry in an ordered queue.\<close>

lemma claim_proposal_ordered:
  assumes "IsLeader jr peer" and "ordered (proposals peer)" and "p \<in> set (proposals peer)"
    and "matches (entry_index e) (entry_term e) p"
  shows "\<exists>peer' s'. claim_proposal jr e (peer, s) = (Some p, peer', s')"
  using assms(1) ordered_take_match [OF assms(2-4)]
  by (auto simp: claim_proposal_def GetProposal_spec)

lemma ProcessNormal_answer:
  assumes "ProcessNormal ldb pb e (Some p) (peer, s) = Inr (peer', s')" and "entry_op pb e = Some c"
  obtains h where "runs s' = runs s @ [(p_done p, h)]" and "h = resps s'"
    and "\<And>k. c = SGet k \<Longrightarrow> \<exists>v. DiskStorage_Get ldb (kv_db peer) k = Inr v
           \<and> get_resp_opt (h (p_resp p)) = Some \<lparr>get_value = v\<rparr>"
  using assms
  by (auto simp: ProcessNormal_def entry_op_def run_if_def
      split: if_splits option.splits CmdType.splits)

lemma ProcessEntry_answer:
  assumes "ProcessEntry jr ldb pb e (peer, s) = Inr (peer', s')" and "IsLeader jr peer"
    and "ordered (proposals peer)" and "p \<in> set (proposals peer)"
    and "matches (entry_index e) (entry_term e) p" and "entry_op pb e = Some c"
  obtains h rs where "runs s' = rs @ [(p_done p, h)]" and "h = resps s'"
    and "\<And>k. c = SGet k \<Longrightarrow> \<exists>v. DiskStorage_Get ldb (kv_db peer) k = Inr v
           \<and> get_resp_opt (h (p_resp p)) = Some \<lparr>get_value = v\<rparr>"
proof -
  obtain peer1 s1 where c1: "claim_proposal jr e (peer, s) = (Some p, peer1, s1)"
    using claim_proposal_ordered [OF assms(2-5)] by blast
  have "entry_type e = kEntryNormal"
    using assms(6) by (auto simp: entry_op_def split: if_splits)
  with assms(1) c1 have "ProcessNormal ldb pb e (Some p) (peer1, s1) = Inr (peer', s')"
    by (simp add: ProcessEntry_def)
  from ProcessNormal_answer [OF this assms(6)] obtain h where h: "runs s' = runs s1 @ [(p_done p, h)]" "h = resps s'"
    "\<And>k. c = SGet k \<Longrightarrow> \<exists>v. DiskStorage_Get ldb (kv_db peer1) k = Inr v
       \<and> get_resp_opt (h (p_resp p)) = Some \<lparr>get_value = v\<rparr>"
    by blast
  from that [OF h(1,2)] h(3) claim_proposal_frame(2) [OF c1] show thesis
    by simp
qed

lemma fold_reject_resps: "r \<notin> p_resp ` set ps \<Longrightarrow> resps (fold reject ps s) r = resps s r"
  by (induction ps arbitrary: s) auto

lemma ProcessNormal_resps:
  assumes "ProcessNormal ldb pb e p (peer, s) = Inr (peer', s')"
  shows "\<forall>q. p = Some q \<longrightarrow> p_resp q \<noteq> r \<Longrightarrow> resps s' r = resps s r"
    and "rejected (resps s' r) = rejected (resps s r)"
  using assms
  by (auto simp: ProcessNormal_def run_if_def split: option.splits CmdType.splits if_splits)

text \<open>An entry leaves the response of a proposal it does not take alone.\<close>

lemma ProcessEntry_resps:
  assumes "ProcessEntry jr ldb pb e (peer, s) = Inr (peer', s')" and "q \<in> set (proposals peer')"
    and "distinct (map p_resp (proposals peer))"
  shows "resps s' (p_resp q) = resps s (p_resp q) \<and> distinct (map p_resp (proposals peer'))"
proof -
  obtain f peer1 s1 where c: "claim_proposal jr e (peer, s) = (f, peer1, s1)"
    and q: "proposals peer' = proposals peer1"
    using assms(1) by (auto elim: ProcessEntry_queue)
  note split = claim_proposal_queue [OF c]
  have fresh: "p_resp q \<notin> p_resp ` set (rejects jr e peer)" "\<forall>x. f = Some x \<longrightarrow> p_resp x \<noteq> p_resp q"
    "distinct (map p_resp (proposals peer'))"
    using assms(2,3) q unfolding split(1) by (auto split: option.splits)
  have "resps s' (p_resp q) = resps s1 (p_resp q)"
    using assms(1) c ProcessNormal_resps(1) [OF _ fresh(2)]
    by (auto simp: ProcessEntry_def ProcessConfChange_def split: if_splits)
  with fresh split(2) show ?thesis
    by (simp add: fold_reject_resps)
qed

lemma ProcessEntries_resps:
  assumes "ProcessEntries jr ldb pb es (peer, s) = Inr (peer', s')" and "IsLeader jr peer"
    and "ordered (proposals peer)" and "q \<in> set (proposals peer)" and "\<forall>e\<in>set es. entry_before e q"
    and "distinct (map p_resp (proposals peer))"
  shows "resps s' (p_resp q) = resps s (p_resp q) \<and> distinct (map p_resp (proposals peer'))"
  using assms unfolding ProcessEntries_def
proof (induction es arbitrary: peer s)
  case (Cons e es)
  then obtain peer1 s1 where one: "ProcessEntry jr ldb pb e (peer, s) = Inr (peer1, s1)"
    and rest: "ofold (ProcessEntry jr ldb pb) es (peer1, s1) = Inr (peer', s')"
    by auto
  have keeps: "IsLeader jr peer1 \<and> ordered (proposals peer1) \<and> q \<in> set (proposals peer1)"
    using ProcessEntry_keeps [OF one] Cons.prems by simp
  with ProcessEntry_resps [OF one] Cons.prems(6)
  have "resps s1 (p_resp q) = resps s (p_resp q)" "distinct (map p_resp (proposals peer1))"
    by blast+
  with Cons.IH [OF rest] keeps Cons.prems(5) show ?case
    by simp
qed simp

text \<open>The entry of a proposal rejects older proposals, never its own.\<close>

lemma ProcessEntry_not_rejected:
  assumes "ProcessEntry jr ldb pb e (peer, s) = Inr (peer', s')" and "IsLeader jr peer"
    and "ordered (proposals peer)" and "q \<in> set (proposals peer)"
    and "matches (entry_index e) (entry_term e) q" and "distinct (map p_resp (proposals peer))"
  shows "rejected (resps s' (p_resp q)) = rejected (resps s (p_resp q))"
proof -
  obtain peer1 s1 where c: "claim_proposal jr e (peer, s) = (Some q, peer1, s1)"
    using claim_proposal_ordered [OF assms(2-5)] by blast
  note split = claim_proposal_queue [OF c]
  have "p_resp q \<notin> p_resp ` set (rejects jr e peer)"
    using assms(6) unfolding split(1) by auto
  moreover have "rejected (resps s' (p_resp q)) = rejected (resps s1 (p_resp q))"
    using assms(1) c
    by (auto simp: ProcessEntry_def ProcessConfChange_def ProcessNormal_resps(2) split: if_splits)
  ultimately show ?thesis
    by (simp add: split(2) fold_reject_resps)
qed

text \<open>The answer to the last entry of a batch.\<close>

lemma batch_answer:
  assumes "leveldb_contract ldb view"
    and "ProcessEntries jr ldb pb (es @ [e]) (peer, s) = Inr (peer', s')"
    and "IsLeader jr peer" and "ordered (proposals peer)" and "p \<in> set (proposals peer)"
    and "matches (entry_index e) (entry_term e) p" and "\<forall>e'\<in>set es. entry_before e' p"
    and "entry_op pb e = Some c"
  shows "\<exists>rs h. runs s' = rs @ [(p_done p, h)] \<and> h = resps s'
    \<and> disk_contents view (kv_db peer') = op_effect c (replay pb es (disk_contents view (kv_db peer)))
    \<and> (\<forall>k. c = SGet k \<longrightarrow> (\<exists>v. get_resp_opt (h (p_resp p)) = Some \<lparr>get_value = v\<rparr>
         \<and> replay pb es (disk_contents view (kv_db peer)) k = Some v))"
proof -
  obtain peer1 s1 where run: "ProcessEntries jr ldb pb es (peer, s) = Inr (peer1, s1)"
    and last: "ProcessEntry jr ldb pb e (peer1, s1) = Inr (peer', s')"
    using assms(2) by (auto simp: ProcessEntries_def ofold_snoc)
  have m: "disk_contents view (kv_db peer1) = replay pb es (disk_contents view (kv_db peer))"
    using apply_entries_effect [OF assms(1) ProcessEntries_store [OF run]] by blast
  have "disk_contents view (kv_db peer') = entry_effect pb e (disk_contents view (kv_db peer1))"
    using apply_entry_effect(1) [OF assms(1)] peer_log.step_view_Inr [OF last] by (simp add: store_of_def)
  moreover have "kv_store (DiskStorage_Get ldb) (DiskStorage_Put ldb) (DiskStorage_Del ldb) (disk_contents view)"
    by (rule DiskStorage_kv_store [OF assms(1)])
  moreover obtain rs h where "runs s' = rs @ [(p_done p, h)]" and "h = resps s'"
    and "\<And>k. c = SGet k \<Longrightarrow> \<exists>v. DiskStorage_Get ldb (kv_db peer1) k = Inr v
       \<and> get_resp_opt (h (p_resp p)) = Some \<lparr>get_value = v\<rparr>"
    using ProcessEntries_keeps [OF run assms(3-5,7)] assms(6,8) by (auto elim: ProcessEntry_answer [OF last])
  ultimately show ?thesis
    using m assms(8) by (fastforce simp: entry_effect_def dest: kv_store.get_sound)
qed

lemma batch_not_rejected:
  assumes "ProcessEntries jr ldb pb (es @ [e]) (peer, s) = Inr (peer', s')"
    and "IsLeader jr peer" and "ordered (proposals peer)" and "p \<in> set (proposals peer)"
    and "matches (entry_index e) (entry_term e) p" and "\<forall>e'\<in>set es. entry_before e' p"
    and "distinct (map p_resp (proposals peer))"
  shows "rejected (resps s' (p_resp p)) = rejected (resps s (p_resp p))"
proof -
  obtain peer1 s1 where run: "ProcessEntries jr ldb pb es (peer, s) = Inr (peer1, s1)"
    and last: "ProcessEntry jr ldb pb e (peer1, s1) = Inr (peer', s')"
    using assms(1) by (auto simp: ProcessEntries_def ofold_snoc)
  show ?thesis
    using ProcessEntries_keeps [OF run assms(2-4,6)] ProcessEntries_resps [OF run assms(2-4,6,7)]
      ProcessEntry_not_rejected [OF last _ _ _ assms(5)] by simp
qed

section \<open>Creating proposals\<close>

text \<open>
  The queue is in log order and no proposal lies beyond the end of the node's log.
\<close>

definition proposals_inv :: "('rn, 'ms) jraft \<Rightarrow> ('rn, 'db) Peer \<Rightarrow> bool" where
  "proposals_inv jr p \<longleftrightarrow> ordered (proposals p) \<and>
     (\<forall>q\<in>set (proposals p). p_term q < Term jr p
        \<or> p_term q = Term jr p \<and> p_index q \<le> rn_LastIndex jr (raw_node p))"

text \<open>
  What the Raft node does with a proposal of its leader: it appends one entry in its current term,
  or it drops the proposal (\<^verbatim>\<open>kErrProposalDropped\<close>) and its log stays as it is.
\<close>

definition propose_accepted :: "('rn, 'ms) jraft \<Rightarrow> 'rn \<Rightarrow> bytes \<Rightarrow> bool" where
  "propose_accepted jr n d \<longleftrightarrow> rn_term jr (rn_Propose jr n d) = rn_term jr n
     \<and> rn_IsLeader jr (rn_Propose jr n d)
     \<and> rn_LastIndex jr (rn_Propose jr n d) = rn_LastIndex jr n + 1"

definition propose_dropped :: "('rn, 'ms) jraft \<Rightarrow> 'rn \<Rightarrow> bytes \<Rightarrow> bool" where
  "propose_dropped jr n d \<longleftrightarrow> rn_term jr (rn_Propose jr n d) = rn_term jr n
     \<and> rn_IsLeader jr (rn_Propose jr n d)
     \<and> rn_LastIndex jr (rn_Propose jr n d) = rn_LastIndex jr n"

lemma ProposeKvOp_leader:
  assumes "SerializeToString pb req = Some d" and "IsLeader jr p"
  shows "ProposeKvOp jr pb req r c p = Inr (p\<lparr>proposals := proposals p
      @ [new_Proposal (NextProposalIndex jr p) (Term jr p) r c], raw_node := rn_Propose jr (raw_node p) d\<rparr>)"
  using assms by (simp add: ProposeKvOp_def Let_def)

lemma less_add_1_iff:
  assumes "y \<noteq> (- 1 :: u64)"
  shows "x < y + 1 \<longleftrightarrow> x \<le> y"
proof -
  have "1 + y \<noteq> 0"
    using assms by (metis add_eq_0_iff)
  then show ?thesis
    by (simp add: word_less_nat_alt word_le_nat_alt unatSuc less_Suc_eq_le add.commute [of y])
qed

lemma ProposeKvOp_before:
  assumes "proposals_inv jr p" and "rn_LastIndex jr (raw_node p) \<noteq> - 1" and "x \<in> set (proposals p)"
  shows "before x (new_Proposal (NextProposalIndex jr p) (Term jr p) r c)"
  using assms(1,3) by (auto simp: proposals_inv_def before_def new_Proposal_def NextProposalIndex_def
      less_add_1_iff [OF assms(2)])

lemma ProposeKvOp_ordered:
  assumes "proposals_inv jr p" and "rn_LastIndex jr (raw_node p) \<noteq> - 1"
  shows "ordered (proposals p @ [new_Proposal (NextProposalIndex jr p) (Term jr p) r c])"
  using assms(1) ProposeKvOp_before [OF assms] by (intro ordered_snoc) (auto simp: proposals_inv_def)

section \<open>Properties\<close>

text \<open>
  Every client is answered at most once. If no completion closure occurs twice among those that
  have run and those of the pending proposals, the same holds after any batch of committed entries;
  the closures that ran before stay run, and a batch only runs closures of proposals that were
  pending when it started.
\<close>

theorem closures_run_at_most_once:
  assumes "ProcessEntries jr ldb pb es (peer, s) = Inr (peer', s')"
    and "distinct (ran s @ map p_done (proposals peer))"
  shows "distinct (ran s' @ map p_done (proposals peer')) \<and>
    (\<exists>more. ran s' = ran s @ more \<and> set more \<subseteq> set (map p_done (proposals peer)))"
proof -
  have run: "ofold (ProcessEntry jr ldb pb) es (peer, s) = Inr (peer', s')"
    using assms(1) by (simp add: ProcessEntries_def)
  obtain more where more: "ran s' = ran s @ more"
    using peer_closures.run_grows [OF run] by (auto simp: answers_def)
  have "mset (ran s @ more) + mset (map p_done (proposals peer')) \<subseteq># mset (ran s) + mset (map p_done (proposals peer))"
    using peer_closures.run_account [OF run] by (simp add: answers_def pending_def more)
  then have "mset more + mset (map p_done (proposals peer')) \<subseteq># mset (map p_done (proposals peer))"
    by simp
  then have "set more \<subseteq> set (map p_done (proposals peer))"
    by (metis set_mset_mono set_mset_mset set_mset_union sup.bounded_iff)
  with more peer_closures.at_most_once [OF run] assms(2) show ?thesis
    by (simp add: answers_def pending_def)
qed

theorem closures_run_at_most_once_witness:
  "distinct (ran (Run 8 (set_rejected 4 demo_replies)) @ [])"
proof -
  have "ProcessEntries solo_raft mem_leveldb demo_codec [demo_entry 1 1 ''p1,a1'']
      (demo_peer (solo_new False 1 0) [] [new_Proposal 1 1 4 8], demo_replies) =
      Inr (demo_peer (solo_new False 1 0) [(''a'', ''1'')] [], Run 8 (set_rejected 4 demo_replies))"
    by (simp add: peer_eval demo_defs solo_defs demo_codec_defs store_eval new_Proposal_def reject_def)
  from closures_run_at_most_once [OF this] show ?thesis
    by (simp add: demo_defs new_Proposal_def ran_def)
qed

text \<open>
  An answer reflects the position of its command in the log. Let a leader with its proposals in
  log order apply a batch that ends with a command whose proposal is pending, all earlier entries of
  the batch lying before that proposal. Then the last closure that runs is that proposal's; the
  store then holds the replay of the whole batch; and if the command is a Get, the response handed to
  the closure carries the value its key has after exactly the entries before it.
\<close>

theorem answers_reflect_log:
  assumes "leveldb_contract ldb view"
    and "ProcessEntries jr ldb pb (es @ [e]) (peer, s) = Inr (peer', s')"
    and "IsLeader jr peer" and "ordered (proposals peer)" and "p \<in> set (proposals peer)"
    and "matches (entry_index e) (entry_term e) p" and "\<forall>e'\<in>set es. entry_before e' p"
    and "entry_op pb e = Some c"
  shows "\<exists>rs h. runs s' = rs @ [(p_done p, h)]
    \<and> disk_contents view (kv_db peer') = op_effect c (replay pb es (disk_contents view (kv_db peer)))
    \<and> (\<forall>k. c = SGet k \<longrightarrow> (\<exists>v. get_resp_opt (h (p_resp p)) = Some \<lparr>get_value = v\<rparr>
         \<and> replay pb es (disk_contents view (kv_db peer)) k = Some v))"
  using batch_answer [OF assms] by blast

theorem answers_reflect_log_witness:
  "\<exists>rs h. runs (Run 8 (set_get_value 4 ''1'' demo_replies)) = rs @ [(8, h)]
     \<and> (\<exists>v. get_resp_opt (h 4) = Some \<lparr>get_value = v\<rparr>
          \<and> replay demo_codec [demo_entry 1 1 ''p1,a1''] Map.empty ''a'' = Some v)"
proof -
  have "ProcessEntries solo_raft mem_leveldb demo_codec ([demo_entry 1 1 ''p1,a1''] @ [demo_entry 1 2 ''ga''])
      (demo_peer (solo_new True 1 0) [] [new_Proposal 2 1 4 8], demo_replies) =
      Inr (demo_peer (solo_new True 1 0) [(''a'', ''1'')] [], Run 8 (set_get_value 4 ''1'' demo_replies))"
    by (simp add: peer_eval demo_defs solo_defs demo_codec_defs store_eval new_Proposal_def)
  from answers_reflect_log [OF mem_leveldb_contract this, of "new_Proposal 2 1 4 8" "SGet ''a''"]
  show ?thesis
    by (simp add: demo_defs solo_defs new_Proposal_def IsLeader_def ordered_def matches_def
        entry_before_def entry_op_def demo_codec_defs disk_contents_def)
qed

text \<open>
  C29: a peer that is not the leader answers every pending proposal with a rejection when it applies
  an entry: all closures run in queue order, each with its response marked rejected at that moment,
  and the queue is empty afterwards.
\<close>

theorem follower_rejects_all:
  assumes "ProcessEntry jr ldb pb e (peer, s) = Inr (peer', s')" and "\<not> IsLeader jr peer"
  shows "proposals peer' = [] \<and>
    (\<exists>hs. runs s' = runs s @ zip (map p_done (proposals peer)) hs \<and> length hs = length (proposals peer)
       \<and> (\<forall>i<length (proposals peer). rejected ((hs ! i) (p_resp (proposals peer ! i)))))"
proof -
  obtain peer1 where c: "claim_proposal jr e (peer, s) = (None, peer1, fold reject (proposals peer) s)"
    and q: "proposals peer1 = []"
    using assms(2) by (simp add: claim_proposal_def CallbackAll_def)
  have "runs s' = runs (fold reject (proposals peer) s)" "proposals peer' = []"
    using assms(1) c q
    by (auto simp: ProcessEntry_def ProcessNormal_def ProcessConfChange_def run_if_def
        split: if_splits option.splits CmdType.splits)
  with fold_reject_runs [of "proposals peer" s] show ?thesis
    by simp
qed

theorem follower_rejects_all_witness:
  "\<exists>hs. runs (Run 9 (set_rejected 5 (Run 8 (set_rejected 4 demo_replies)))) = zip [8, 9] hs \<and> length hs = 2
     \<and> rejected ((hs ! 0) 4) \<and> rejected ((hs ! 1) 5)"
proof -
  have "ProcessEntry solo_raft mem_leveldb demo_codec (demo_entry 2 1 ''p1,a1'')
      (demo_peer (solo_new False 2 0) [] [new_Proposal 1 1 4 8, new_Proposal 2 1 5 9], demo_replies) =
      Inr (demo_peer (solo_new False 2 0) [(''a'', ''1'')] [],
        Run 9 (set_rejected 5 (Run 8 (set_rejected 4 demo_replies))))"
    by (simp add: peer_eval demo_defs solo_defs demo_codec_defs store_eval new_Proposal_def reject_def)
  from follower_rejects_all [OF this] show ?thesis
    by (simp add: demo_defs solo_defs new_Proposal_def IsLeader_def numeral_2_eq_2 less_Suc_eq all_conj_distrib)
qed

text \<open>
  \<^verbatim>\<open>ProposeKvOp\<close> on a leader whose Raft node accepts the proposal appends exactly one
  proposal, with the index and term of the log entry the node creates, and keeps the queue in log
  order with no proposal beyond the end of the log.
\<close>

theorem ProposeKvOp_invariant:
  assumes "ProposeKvOp jr pb req r c p = Inr p'" and "IsLeader jr p" and "proposals_inv jr p"
    and "SerializeToString pb req = Some d" and "propose_accepted jr (raw_node p) d"
    and "rn_LastIndex jr (raw_node p) \<noteq> - 1"
  shows "proposals_inv jr p' \<and> proposals p' = proposals p
    @ [\<lparr>p_index = rn_LastIndex jr (raw_node p'), p_term = Term jr p', p_resp = r, p_done = c\<rparr>]"
proof -
  let ?q = "new_Proposal (NextProposalIndex jr p) (Term jr p) r c"
  have p': "p' = p\<lparr>proposals := proposals p @ [?q], raw_node := rn_Propose jr (raw_node p) d\<rparr>"
    using assms(1) ProposeKvOp_leader [OF assms(4,2), of r c] by simp
  have t: "Term jr p' = Term jr p" and l: "rn_LastIndex jr (raw_node p') = rn_LastIndex jr (raw_node p) + 1"
    using assms(5) by (simp_all add: p' Term_def propose_accepted_def)
  note b = ProposeKvOp_before [OF assms(3,6), of _ r c]
  have "ordered (proposals p @ [?q])"
    by (rule ProposeKvOp_ordered [OF assms(3,6)])
  moreover have "\<forall>x\<in>set (proposals p). p_term x < Term jr p \<or> p_term x = Term jr p \<and>
      p_index x \<le> rn_LastIndex jr (raw_node p) + 1"
    using b by (fastforce simp: before_def new_Proposal_def NextProposalIndex_def)
  ultimately show ?thesis
    using t l by (auto simp: proposals_inv_def p' new_Proposal_def NextProposalIndex_def Term_def)
qed

theorem ProposeKvOp_invariant_witness:
  "proposals_inv solo_raft (demo_peer (solo_propose (solo_new True 3 0) ''ga'') [] [new_Proposal 1 3 4 8])"
proof -
  have "ProposeKvOp solo_raft demo_codec (mk_get ''a'') 4 8 (demo_peer (solo_new True 3 0) [] []) =
      Inr (demo_peer (solo_propose (solo_new True 3 0) ''ga'') [] [new_Proposal 1 3 4 8])"
    by (simp add: ProposeKvOp_def demo_defs solo_defs demo_codec_def demo_print_def IsLeader_def Term_def
        NextProposalIndex_def)
  from ProposeKvOp_invariant [OF this, of "''ga''"] show ?thesis
    by (simp add: demo_defs solo_defs demo_codec_def demo_print_def IsLeader_def proposals_inv_def
        propose_accepted_def)
qed

end
