(* ===== verification/Peer_Anomalies.thy ===== *)
theory Peer_Anomalies
  imports Peer_Answers
begin

text \<open>
  Behaviour of \<^verbatim>\<open>Peer\<close> that a client would not expect, stated as theorems: a closure that is
  never run, a rejection of a command that was applied, and an answer that goes to the wrong client
  after the Raft node dropped a proposal.
\<close>

section \<open>Lemmas\<close>

lemma fold_reject_marks: "p \<in> set ps \<Longrightarrow> rejected (resps (fold reject ps s) (p_resp p))"
proof (induction ps arbitrary: s)
  case (Cons q ps)
  then show ?case
    by (auto intro: rejected_stays)
qed simp

lemma mset_removed:
  assumes "proposals peer = xs @ [p] @ ys" and "distinct (ran s @ map p_done (proposals peer))"
  shows "p_done p \<notin> set (ran s) \<and> p_done p \<notin> p_done ` set xs \<and> p_done p \<notin> p_done ` set ys"
  using assms by auto

section \<open>Properties\<close>

text \<open>
  C30: a command that does nothing is never answered. If the entry of a pending proposal is a normal
  entry without a named command (\<^verbatim>\<open>kInvalid\<close>, which is also what an empty request parses
  to) or a configuration change, the leader takes the proposal off its queue without running its
  closure, and no later batch of entries runs it.
\<close>

theorem no_command_never_answered:
  assumes "ProcessEntries jr ldb pb (e # es) (peer, s) = Inr (peer', s')" and "IsLeader jr peer"
    and "ordered (proposals peer)" and "p \<in> set (proposals peer)"
    and "matches (entry_index e) (entry_term e) p" and "entry_op pb e = None"
    and "distinct (ran s @ map p_done (proposals peer))"
  shows "p_done p \<notin> set (ran s') \<and> p \<notin> set (proposals peer')"
proof -
  obtain peer1 s1 where e: "ProcessEntry jr ldb pb e (peer, s) = Inr (peer1, s1)"
    and es: "ofold (ProcessEntry jr ldb pb) es (peer1, s1) = Inr (peer', s')"
    using assms(1) by (auto simp: ProcessEntries_def)
  obtain peer0 s0 where c: "claim_proposal jr e (peer, s) = (Some p, peer0, s0)"
    using claim_proposal_ordered [OF assms(2-5)] by blast
  with e assms(6) have q: "proposals peer1 = proposals peer0" "ran s1 = ran s0"
    by (auto elim!: ProcessEntry_queue)
  have split: "proposals peer = rejects jr e peer @ [p] @ proposals peer0"
    using claim_proposal_queue(1) [OF c] by simp
  then have fresh: "p_done p \<notin> set (ran s1) \<and> p_done p \<notin> p_done ` set (proposals peer1)"
    using mset_removed [OF split assms(7)] claim_proposal_queue(2) [OF c] q by simp
  have "set_mset (mset (ran s') + mset (map p_done (proposals peer')))
      \<subseteq> set_mset (mset (ran s1) + mset (map p_done (proposals peer1)))"
    using set_mset_mono [OF peer_closures.run_account [OF es]] by (simp add: answers_def pending_def)
  with fresh show ?thesis
    by auto
qed

theorem no_command_never_answered_witness:
  "8 \<notin> set (ran demo_replies)"
proof -
  have "ProcessEntries solo_raft mem_leveldb demo_codec [demo_entry 1 1 '''', demo_entry 1 2 ''p1,a1'']
      (demo_peer (solo_new True 1 0) [] [new_Proposal 1 1 4 8], demo_replies) =
      Inr (demo_peer (solo_new True 1 0) [(''a'', ''1'')] [], demo_replies)"
    by (simp add: peer_eval demo_defs solo_defs demo_codec_defs store_eval new_Proposal_def default_KvReq_def)
  from no_command_never_answered [OF this, of "new_Proposal 1 1 4 8"] show ?thesis
    by (simp add: demo_defs solo_defs demo_codec_defs new_Proposal_def IsLeader_def ordered_def
        matches_def entry_op_def default_KvReq_def ran_def)
qed

text \<open>
  C31: rejected and applied. When a peer that has lost leadership applies the committed Put of one
  of its own pending proposals, the client's response is marked rejected and its closure runs, and in
  the same call the value is stored: \<^verbatim>\<open>rejected\<close> does not mean that the command had no effect.
\<close>

theorem rejected_yet_applied:
  assumes "leveldb_contract ldb view" and "ProcessEntry jr ldb pb e (peer, s) = Inr (peer', s')"
    and "\<not> IsLeader jr peer" and "p \<in> set (proposals peer)"
    and "matches (entry_index e) (entry_term e) p" and "entry_op pb e = Some (SPut k v)"
  shows "rejected (resps s' (p_resp p)) \<and> p_done p \<in> set (ran s')
    \<and> disk_contents view (kv_db peer') k = Some v"
proof -
  obtain f peer1 s1 where c: "claim_proposal jr e (peer, s) = (f, peer1, s1)"
    by (cases "claim_proposal jr e (peer, s)") auto
  have s1: "f = None" "s1 = fold reject (proposals peer) s"
    using c assms(3) by (auto simp: claim_proposal_def CallbackAll_def)
  have "s' = s1"
    using assms(2,6) c s1(1)
    by (auto simp: ProcessEntry_def ProcessNormal_def entry_op_def run_if_def
        split: if_splits option.splits CmdType.splits)
  moreover have "disk_contents view (kv_db peer') k = Some v"
    using apply_entry_effect(1) [OF assms(1)] peer_log.step_view_Inr [OF assms(2)] assms(6)
    by (simp add: store_of_def entry_effect_def)
  ultimately show ?thesis
    using s1(2) assms(4) by (simp add: fold_reject_marks)
qed

theorem rejected_yet_applied_witness:
  "rejected (resps (Run 8 (set_rejected 4 demo_replies)) 4)"
proof -
  have "ProcessEntry solo_raft mem_leveldb demo_codec (demo_entry 1 1 ''p1,a1'')
      (demo_peer (solo_new False 2 0) [] [new_Proposal 1 1 4 8], demo_replies) =
      Inr (demo_peer (solo_new False 2 0) [(''a'', ''1'')] [], Run 8 (set_rejected 4 demo_replies))"
    by (simp add: peer_eval demo_defs solo_defs demo_codec_defs store_eval new_Proposal_def reject_def)
  from rejected_yet_applied [OF mem_leveldb_contract this, of "new_Proposal 1 1 4 8" "''a''" "''1''"]
  show ?thesis
    by (simp add: demo_defs solo_defs demo_codec_defs new_Proposal_def IsLeader_def matches_def entry_op_def)
qed

text \<open>
  C32: a dropped proposal misdirects the next answer. A leader whose Raft node drops the first of two
  proposals (the error code of \<^verbatim>\<open>Propose\<close> is ignored) queues both under the same index and
  term. When the second client's command is committed at that index, the closure that runs is the
  first client's; the second client's proposal stays pending.
\<close>

theorem dropped_proposal_misdirects_answer:
  assumes "IsLeader jr p" and "proposals p = []"
    and "SerializeToString pb req1 = Some d1" and "propose_dropped jr (raw_node p) d1"
    and "SerializeToString pb req2 = Some d2" and "propose_accepted jr (rn_Propose jr (raw_node p) d1) d2"
    and "obind (ProposeKvOp jr pb req1 r1 c1 p) (ProposeKvOp jr pb req2 r2 c2) = Inr p2"
    and "entry_index e = rn_LastIndex jr (raw_node p2)" and "entry_term e = Term jr p2"
    and "entry_op pb e \<noteq> None"
    and "ProcessEntry jr ldb pb e (p2, s) = Inr (p3, s3)"
  shows "ran s3 = ran s @ [c1] \<and> map p_done (proposals p3) = [c2]"
proof -
  let ?n = "rn_Propose jr (raw_node p) d1" and ?i = "rn_LastIndex jr (raw_node p) + 1"
  let ?q1 = "new_Proposal ?i (Term jr p) r1 c1" and ?q2 = "new_Proposal ?i (Term jr p) r2 c2"
  have p2: "p2 = p\<lparr>proposals := [?q1, ?q2], raw_node := rn_Propose jr ?n d2\<rparr>"
    using assms(4,6,7) ProposeKvOp_leader [OF assms(3,1)]
      ProposeKvOp_leader [OF assms(5), of jr "p\<lparr>proposals := [?q1], raw_node := ?n\<rparr>" r2 c2]
    by (simp add: assms(2) IsLeader_def NextProposalIndex_def Term_def propose_dropped_def)
  have lead: "IsLeader jr p2" and key: "entry_index e = ?i" "entry_term e = Term jr p"
    using assms(4,6,8,9) by (simp_all add: p2 IsLeader_def Term_def propose_dropped_def propose_accepted_def)
  have "claim_proposal jr e (p2, s) = (Some ?q1, p2\<lparr>proposals := [?q2]\<rparr>, s)"
    using lead key by (simp add: claim_proposal_def p2 new_Proposal_def)
  with assms(10,11) show ?thesis
    by (auto elim!: ProcessEntry_queue simp: new_Proposal_def)
qed

theorem dropped_proposal_misdirects_answer_witness:
  "ran (Run 8 (set_get_value 4 ''1'' demo_replies)) = ran demo_replies @ [8]
   \<and> map p_done (proposals (demo_peer (solo_propose (solo_new True 1 0) ''ga'') [(''a'', ''1'')]
        [new_Proposal 1 1 5 9])) = [9]"
proof -
  let ?p = "demo_peer (solo_new True 1 1) [(''a'', ''1'')] []"
  let ?p2 = "demo_peer (solo_propose (solo_new True 1 0) ''ga'') [(''a'', ''1'')]
    [new_Proposal 1 1 4 8, new_Proposal 1 1 5 9]"
  have two: "obind (ProposeKvOp solo_raft demo_codec (mk_get ''b'') 4 8 ?p)
      (ProposeKvOp solo_raft demo_codec (mk_get ''a'') 5 9) = Inr ?p2"
    by (simp add: ProposeKvOp_def demo_defs solo_defs demo_codec_def demo_print_def IsLeader_def Term_def
        NextProposalIndex_def)
  have apply1: "ProcessEntry solo_raft mem_leveldb demo_codec (demo_entry 1 1 ''ga'') (?p2, demo_replies) =
      Inr (demo_peer (solo_propose (solo_new True 1 0) ''ga'') [(''a'', ''1'')] [new_Proposal 1 1 5 9],
        Run 8 (set_get_value 4 ''1'' demo_replies))"
    by (simp add: peer_eval demo_defs solo_defs demo_codec_defs store_eval new_Proposal_def)
  show ?thesis
    by (rule dropped_proposal_misdirects_answer [OF _ _ _ _ _ _ two _ _ _ apply1, of "''gb''" "''ga''"])
      (simp_all add: demo_defs solo_defs demo_codec_defs IsLeader_def Term_def propose_dropped_def
        propose_accepted_def entry_op_def)
qed

end
