(* ===== verification/Peer_Ready.thy ===== *)
theory Peer_Ready
  imports Peer_Log
begin

text \<open>
  One round of a peer's timer (\<^verbatim>\<open>Tick\<close>, \<^verbatim>\<open>HandleRaftReady\<close>) and the sending of
  Raft messages to the other members (\<^verbatim>\<open>SendMsgs\<close>, \<^verbatim>\<open>SendMsg2Peer\<close>).
\<close>

section \<open>Sending\<close>

text \<open>The request that carries a message to a member.\<close>

definition envelope :: "('rn, 'db) Peer \<Rightarrow> Message \<Rightarrow> RaftMsgReq" where
  "envelope p m =
     (let t = the (map_of (peers p) (msg_to m))
      in \<lparr>from_peer = \<lparr>meta_host_id = gm_host_id (self p), meta_peer_id = gm_peer_id (self p)\<rparr>,
          to_peer = \<lparr>meta_host_id = gm_host_id t, meta_peer_id = gm_peer_id t\<rparr>, raft_msg = m\<rparr>)"

lemma SendMsg2Peer_Inr:
  assumes "SendMsg2Peer connect m (p, s) = Inr (p', s')"
  obtains c where "p' = p" and "msg_to m \<in> fst ` set (peers p)"
    and "sent s' = sent s @ [(c, envelope p m)]" and "rpc_cli_mgr s' (msg_to m) = Some c"
    and "rpc_cli_mgr s \<subseteq>\<^sub>m rpc_cli_mgr s'"
    and "resps s' = resps s" and "runs s' = runs s" and "net.more s' = net.more s"
proof -
  obtain t where t: "map_of (peers p) (msg_to m) = Some t"
    using assms by (auto simp: SendMsg2Peer_def Let_def split: option.splits)
  then obtain c s1 where g: "GetClient connect (msg_to m) (worker p)
        \<lparr>sa_ip = gm_ip t, sa_port = gm_port t\<rparr> 300 [] True s = Inr (Some c, s1)"
    and s': "p' = p" "s' = s1\<lparr>sent := sent s1 @ [(c, envelope p m)], next_obj := next_obj s1 + 2,
          live_objs := insert (next_obj s1 + 1) (insert (next_obj s1) (live_objs s1)),
          awaiting := awaiting s1 @ [(next_obj s1, next_obj s1 + 1)]\<rparr>"
    using assms by (auto simp: SendMsg2Peer_def Let_def envelope_def new_object_def split: option.splits)
  have "msg_to m \<in> fst ` set (peers p)"
    using map_of_SomeD [OF t] by force
  from that [OF s'(1) this, of c] show thesis
    using GetClient_frame [OF g] GetClient_result [OF g] GetClient_monotone [OF g] by (simp add: s'(2))
qed

lemma SendMsg2Peer_returns:
  assumes "msg_to m \<in> fst ` set (peers p)" and "\<forall>c. connect c = 0"
  shows "\<exists>s'. SendMsg2Peer connect m (p, s) = Inr (p, s')"
proof -
  obtain t where "map_of (peers p) (msg_to m) = Some t"
    using assms(1) by (metis map_of_eq_None_iff not_None_eq)
  then show ?thesis
    using assms(2) by (auto simp: SendMsg2Peer_def Let_def GetClient_def new_object_def split: option.splits)
qed

text \<open>The calls a batch of messages adds, each through the client cached for its destination.\<close>

lemma SendMsgs_Inr:
  assumes "SendMsgs connect msgs (p, s) = Inr (p', s')"
  shows "p' = p \<and> resps s' = resps s \<and> runs s' = runs s \<and> net.more s' = net.more s
    \<and> rpc_cli_mgr s \<subseteq>\<^sub>m rpc_cli_mgr s'
    \<and> (\<exists>calls. sent s' = sent s @ calls \<and> map snd calls = map (envelope p) msgs
        \<and> list_all2 (\<lambda>m call. rpc_cli_mgr s' (msg_to m) = Some (fst call)) msgs calls)"
  using assms unfolding SendMsgs_def
proof (induction msgs arbitrary: s)
  case (Cons m msgs)
  then obtain q s1 where m: "SendMsg2Peer connect m (p, s) = Inr (q, s1)"
    and rest: "ofold (SendMsg2Peer connect) msgs (q, s1) = Inr (p', s')"
    by fastforce
  from m obtain c where c: "q = p" "sent s1 = sent s @ [(c, envelope p m)]"
    "rpc_cli_mgr s1 (msg_to m) = Some c" "rpc_cli_mgr s \<subseteq>\<^sub>m rpc_cli_mgr s1"
    "resps s1 = resps s" "runs s1 = runs s" "net.more s1 = net.more s"
    by (auto elim: SendMsg2Peer_Inr)
  from Cons.IH [of s1] rest c(1) obtain calls where IH: "p' = p" "resps s' = resps s1" "runs s' = runs s1"
    "net.more s' = net.more s1" "rpc_cli_mgr s1 \<subseteq>\<^sub>m rpc_cli_mgr s'"
    "sent s' = sent s1 @ calls" "map snd calls = map (envelope p) msgs"
    "list_all2 (\<lambda>m call. rpc_cli_mgr s' (msg_to m) = Some (fst call)) msgs calls"
    by blast
  have "rpc_cli_mgr s' (msg_to m) = Some c"
    using c(3) IH(5) by (metis domI map_le_def)
  then show ?case
    using c IH by (auto intro: map_le_trans intro!: exI [of _ "(c, envelope p m) # calls"])
qed simp

lemma SendMsgs_known:
  assumes "SendMsgs connect msgs (p, s) = Inr st'"
  shows "\<forall>m\<in>set msgs. msg_to m \<in> fst ` set (peers p)"
  using assms unfolding SendMsgs_def
  by (induction msgs arbitrary: s) (fastforce elim: SendMsg2Peer_Inr)+

lemma SendMsgs_returns:
  assumes "\<forall>m\<in>set msgs. msg_to m \<in> fst ` set (peers p)" and "\<forall>c. connect c = 0"
  shows "\<exists>s'. SendMsgs connect msgs (p, s) = Inr (p, s')"
proof -
  have "\<exists>st. ofold (SendMsg2Peer connect) msgs (p, s) = Inr st \<and> fst st = p"
  proof (rule ofold_succeeds)
    fix m and st :: "('a, 'b) Peer \<times> 'c net_scheme"
    assume "m \<in> set msgs" "fst st = p"
    with assms(1) SendMsg2Peer_returns [where connect = connect and m = m and p = p and s = "snd st"] assms(2)
    show "\<exists>st'. SendMsg2Peer connect m st = Inr st' \<and> fst st' = p"
      by (cases st) auto
  qed simp
  then show ?thesis
    by (auto simp: SendMsgs_def)
qed

section \<open>A round\<close>

lemma ProcessEntry_frame:
  assumes "ProcessEntry jr ldb pb e (p, s) = Inr (p', s')"
  shows "replies.more s' = replies.more s \<and> raw_node p' = raw_node p \<and> peers p' = peers p \<and> self p' = self p"
proof -
  obtain f p1 s1 where c: "claim_proposal jr e (p, s) = (f, p1, s1)"
    by (cases "claim_proposal jr e (p, s)") auto
  with assms claim_proposal_frame [OF c] show ?thesis
    by (auto simp: ProcessEntry_def ProcessNormal_def ProcessConfChange_def run_if_def
        split: if_splits option.splits CmdType.splits)
qed

lemma ProcessEntries_frame:
  assumes "ProcessEntries jr ldb pb es (p, s) = Inr (p', s')"
  shows "replies.more s' = replies.more s \<and> raw_node p' = raw_node p \<and> peers p' = peers p \<and> self p' = self p"
proof -
  let ?a = "\<lambda>st. (replies.more (snd st), raw_node (fst st), peers (fst st), self (fst st))"
  have step: "?a st' = ?a st" if "ProcessEntry jr ldb pb e st = Inr st'" for e st st'
    using ProcessEntry_frame [of jr ldb pb e "fst st" "snd st" "fst st'" "snd st'"] that by simp
  have "ofold (ProcessEntry jr ldb pb) es (p, s) = Inr (p', s')"
    using assms by (simp add: ProcessEntries_def)
  from ofold_unchanged [where a = ?a, OF this] step have "?a (p', s') = ?a (p, s)"
    by blast
  then show ?thesis
    by simp
qed

lemma sent_more: "replies.more s' = replies.more s \<Longrightarrow> sent s' = sent s \<and> rpc_cli_mgr s' = rpc_cli_mgr s"
  by (cases s; cases s') simp

definition stored_node :: "('rn, 'ms) jraft \<Rightarrow> 'rn \<Rightarrow> 'rn" where
  "stored_node jr n = (let (rd, n') = rn_GetReady jr n
     in if rd_entries rd \<noteq> [] then rn_Append jr n' (rd_entries rd) else n')"

definition ready_of :: "('rn, 'ms) jraft \<Rightarrow> 'rn \<Rightarrow> Ready" where
  "ready_of jr n = fst (rn_GetReady jr n)"

text \<open>The three stages of a round.\<close>

lemma HandleRaftReady_stages:
  assumes "rn_HasReady jr (raw_node p)"
  shows "HandleRaftReady jr ldb pb connect (p, s) =
    obind (SendMsgs connect (rd_messages (ready_of jr (raw_node p)))
        (p\<lparr>raw_node := stored_node jr (raw_node p)\<rparr>, s)) (\<lambda>st.
    obind (ProcessEntries jr ldb pb (rd_committed_entries (ready_of jr (raw_node p))) st) (\<lambda>(p3, s3).
      Inr (p3\<lparr>raw_node := rn_Advance jr (raw_node p3) (ready_of jr (raw_node p))\<rparr>, s3)))"
  using assms
  by (auto simp: HandleRaftReady_def stored_node_def ready_of_def SendMsgs_def ProcessEntries_def Let_def
      split: prod.splits)

lemma HandleRaftReady_returns:
  assumes "leveldb_contract ldb view" and "leveldb_reliable ldb view" and "\<forall>c. connect c = 0"
    and "rn_HasReady jr (raw_node p)" and "rd = ready_of jr (raw_node p)"
    and "\<forall>m\<in>set (rd_messages rd). msg_to m \<in> fst ` set (peers p)"
    and "log_legal pb (rd_committed_entries rd) (disk_contents view (kv_db p))"
  obtains p' s' s1 where "HandleRaftReady jr ldb pb connect (p, s) =
      Inr (p'\<lparr>raw_node := rn_Advance jr (raw_node p') rd\<rparr>, s')"
    and "SendMsgs connect (rd_messages rd) (p\<lparr>raw_node := stored_node jr (raw_node p)\<rparr>, s) =
      Inr (p\<lparr>raw_node := stored_node jr (raw_node p)\<rparr>, s1)"
    and "ProcessEntries jr ldb pb (rd_committed_entries rd)
      (p\<lparr>raw_node := stored_node jr (raw_node p)\<rparr>, s1) = Inr (p', s')"
proof -
  let ?q = "p\<lparr>raw_node := stored_node jr (raw_node p)\<rparr>"
  obtain s1 where s1: "SendMsgs connect (rd_messages rd) (?q, s) = Inr (?q, s1)"
    using SendMsgs_returns [where p = ?q and s = s and connect = connect, OF _ assms(3)] assms(6) by auto
  have "log_legal pb (rd_committed_entries rd) (disk_contents view (kv_db ?q))"
    using assms(7) by simp
  then have "\<exists>st'. ProcessEntries jr ldb pb (rd_committed_entries rd) (?q, s1) = Inr st'"
    unfolding ProcessEntries_returns_iff apply_entries_legal_iff [OF assms(1,2)] .
  then obtain p' s' where s': "ProcessEntries jr ldb pb (rd_committed_entries rd) (?q, s1) = Inr (p', s')"
    by auto
  show thesis
    using that [OF _ s1 s'] HandleRaftReady_stages [OF assms(4), of ldb pb connect s] s1 s' assms(5) by simp
qed

lemma envelope_raw_node [simp]: "envelope (p\<lparr>raw_node := n\<rparr>) = envelope p"
  by (simp add: envelope_def fun_eq_iff Let_def)

section \<open>Properties\<close>

text \<open>
  Every message of a batch reaches the RPC layer. If all destinations are in the member table
  and connections can be opened, \<^verbatim>\<open>SendMsgs\<close> returns; it hands over exactly the given
  messages, in their order, each in a request that names this peer as the sender and, as the
  receiver, the member whose host is the message's destination, through the one client that is
  cached for that host; it answers no client and keeps the cached clients.
\<close>

theorem SendMsgs_delivers:
  assumes "members_ok (peers p)" and "\<forall>m\<in>set msgs. msg_to m \<in> fst ` set (peers p)"
    and "\<forall>c. connect c = 0"
  shows "\<exists>s' calls. SendMsgs connect msgs (p, s) = Inr (p, s') \<and> sent s' = sent s @ calls
    \<and> map (raft_msg \<circ> snd) calls = msgs
    \<and> (\<forall>(c, r)\<in>set calls. meta_host_id (to_peer r) = msg_to (raft_msg r)
        \<and> from_peer r = \<lparr>meta_host_id = gm_host_id (self p), meta_peer_id = gm_peer_id (self p)\<rparr>
        \<and> rpc_cli_mgr s' (msg_to (raft_msg r)) = Some c)
    \<and> rpc_cli_mgr s \<subseteq>\<^sub>m rpc_cli_mgr s' \<and> runs s' = runs s \<and> resps s' = resps s"
proof -
  obtain s' where s': "SendMsgs connect msgs (p, s) = Inr (p, s')"
    using SendMsgs_returns [OF assms(2,3)] by blast
  then obtain calls where calls: "sent s' = sent s @ calls" "map snd calls = map (envelope p) msgs"
    "list_all2 (\<lambda>m call. rpc_cli_mgr s' (msg_to m) = Some (fst call)) msgs calls"
    and frame: "rpc_cli_mgr s \<subseteq>\<^sub>m rpc_cli_mgr s'" "runs s' = runs s" "resps s' = resps s"
    using SendMsgs_Inr by blast
  have msgs: "map (raft_msg \<circ> snd) calls = msgs"
    using arg_cong [OF calls(2), of "map raft_msg"] by (simp add: envelope_def Let_def comp_def)
  have "meta_host_id (to_peer r) = msg_to (raft_msg r)
        \<and> from_peer r = \<lparr>meta_host_id = gm_host_id (self p), meta_peer_id = gm_peer_id (self p)\<rparr>
        \<and> rpc_cli_mgr s' (msg_to (raft_msg r)) = Some c" if call: "(c, r) \<in> set calls" for c r
  proof -
    obtain i where i: "i < length calls" "calls ! i = (c, r)"
      using call by (metis in_set_conv_nth)
    have len: "length msgs = length calls"
      using calls(3) by (rule list_all2_lengthD)
    have r: "r = envelope p (msgs ! i)"
      using arg_cong [OF calls(2), of "\<lambda>xs. xs ! i"] i len by simp
    have "msg_to (msgs ! i) \<in> fst ` set (peers p)"
      using assms(2) i(1) len by simp
    then obtain t where t: "map_of (peers p) (msg_to (msgs ! i)) = Some t"
      by (metis map_of_eq_None_iff not_None_eq)
    show ?thesis
      using members_ok_find [OF assms(1) t] t list_all2_nthD2 [OF calls(3) i(1)] i(2)
      by (simp add: r envelope_def)
  qed
  then show ?thesis
    using s' calls(1) msgs frame by blast
qed

theorem SendMsgs_delivers_witness:
  "\<exists>s' calls. SendMsgs (\<lambda>_. 0) [demo_message 2, demo_message 2]
      (demo_peer (solo_new True 1 0) [] [], demo_net) = Inr (demo_peer (solo_new True 1 0) [] [], s')
    \<and> sent s' = calls \<and> map (raft_msg \<circ> snd) calls = [demo_message 2, demo_message 2]"
proof -
  have "members_ok (peers (demo_peer (solo_new True 1 0) [] []))"
    and "\<forall>m\<in>set [demo_message 2, demo_message 2]. msg_to m \<in> fst ` set (peers (demo_peer (solo_new True 1 0) [] []))"
    and "\<forall>c. (\<lambda>_ :: RpcClient. 0 :: int) c = 0" and "sent demo_net = []"
    by (simp_all add: demo_defs members_ok_def)
  from SendMsgs_delivers [OF this(1-3), of demo_net] this(4) show ?thesis
    by auto
qed

text \<open>
  C20: one round of the timer. When the Raft node has something ready after its tick, all messages
  are for known members, connections can be opened, the database reports no I/O errors and the
  committed entries are legal, \<^verbatim>\<open>Tick\<close> returns with: the ready entries appended to the
  node before it is advanced by exactly this ready; the database replayed by the committed entries;
  one request per ready message handed to the RPC layer, in order. When there is nothing ready, the
  tick of the node is the only effect.
\<close>

theorem Tick_round:
  assumes "leveldb_contract ldb view" and "leveldb_reliable ldb view" and "\<forall>c. connect c = 0"
    and "n = rn_Tick jr (raw_node p)" and "rd = ready_of jr n"
    and "\<forall>m\<in>set (rd_messages rd). msg_to m \<in> fst ` set (peers p)"
    and "log_legal pb (rd_committed_entries rd) (disk_contents view (kv_db p))"
  shows "\<exists>p' s'. Tick jr ldb pb connect (p, s) = Inr (p', s') \<and>
    (if rn_HasReady jr n
     then raw_node p' = rn_Advance jr (stored_node jr n) rd
       \<and> disk_contents view (kv_db p') = replay pb (rd_committed_entries rd) (disk_contents view (kv_db p))
       \<and> map snd (sent s') = map snd (sent s) @ map (envelope p) (rd_messages rd)
       \<and> peers p' = peers p \<and> self p' = self p
     else p' = p\<lparr>raw_node := n\<rparr> \<and> s' = s)"
proof (cases "rn_HasReady jr n")
  case True
  let ?p = "p\<lparr>raw_node := n\<rparr>"
  obtain p' s' s1 where T: "HandleRaftReady jr ldb pb connect (?p, s) =
        Inr (p'\<lparr>raw_node := rn_Advance jr (raw_node p') rd\<rparr>, s')"
    and S: "SendMsgs connect (rd_messages rd) (p\<lparr>raw_node := stored_node jr n\<rparr>, s) =
        Inr (p\<lparr>raw_node := stored_node jr n\<rparr>, s1)"
    and E: "ProcessEntries jr ldb pb (rd_committed_entries rd) (p\<lparr>raw_node := stored_node jr n\<rparr>, s1) = Inr (p', s')"
    using HandleRaftReady_returns [OF assms(1-3), where p = ?p and rd = rd and s = s and jr = jr and pb = pb]
      True assms(5-7) by (simp cong: if_cong) blast
  have "map snd (sent s1) = map snd (sent s) @ map (envelope p) (rd_messages rd)"
    using SendMsgs_Inr [OF S] by auto
  moreover have "sent s' = sent s1" "raw_node p' = stored_node jr n" "peers p' = peers p" "self p' = self p"
    using ProcessEntries_frame [OF E] sent_more by auto
  moreover have "disk_contents view (kv_db p') = replay pb (rd_committed_entries rd) (disk_contents view (kv_db p))"
    using apply_entries_effect [OF assms(1) ProcessEntries_store [OF E]] by simp
  ultimately show ?thesis
    using T True by (simp add: Tick_def assms(4))
qed (simp add: Tick_def HandleRaftReady_def assms(4))

theorem Tick_round_witness:
  "\<exists>p' s'. Tick solo_raft mem_leveldb demo_codec (\<lambda>_. 0)
      (demo_peer (solo_propose (solo_new True 1 0) ''p1,a1'') [] [], demo_net) = Inr (p', s')
    \<and> disk_contents map_of (kv_db p') = [''a'' \<mapsto> ''1'']"
proof -
  let ?n = "solo_propose (solo_new True 1 0) ''p1,a1''"
  have "ready_of solo_raft ?n = \<lparr>rd_entries = [demo_entry 1 1 ''p1,a1''], rd_messages = [],
      rd_committed_entries = [demo_entry 1 1 ''p1,a1'']\<rparr>" "rn_HasReady solo_raft ?n"
    "rn_Tick solo_raft ?n = ?n" "log_legal demo_codec [demo_entry 1 1 ''p1,a1''] Map.empty"
    "replay demo_codec [demo_entry 1 1 ''p1,a1''] Map.empty = [''a'' \<mapsto> ''1'']"
    by (simp_all add: solo_defs demo_defs ready_of_def entry_defs demo_codec_defs)
  with Tick_round [OF mem_leveldb_contract mem_leveldb_reliable _ refl refl,
      where connect = "\<lambda>_. 0" and jr = solo_raft and p = "demo_peer ?n [] []" and s = demo_net and pb = demo_codec]
  show ?thesis
    by (auto simp: disk_contents_def demo_peer_def)
qed

text \<open>
  C33: a message for a host outside the member table is undefined behaviour. Whatever the state,
  \<^verbatim>\<open>SendMsg2Peer\<close> dereferences the end iterator exactly when the destination is not a key of
  the table, so a batch is never handed over in full if it holds such a message.
\<close>

theorem SendMsg2Peer_unknown_host:
  "((\<exists>w. SendMsg2Peer connect m (p, s) = Inl (Undefined w)) \<longleftrightarrow> msg_to m \<notin> fst ` set (peers p))
   \<and> (\<forall>msgs st'. SendMsgs connect msgs (p, s) = Inr st' \<longrightarrow>
        (\<forall>m\<in>set msgs. msg_to m \<in> fst ` set (peers p)))"
proof
  show "(\<exists>w. SendMsg2Peer connect m (p, s) = Inl (Undefined w)) \<longleftrightarrow> msg_to m \<notin> fst ` set (peers p)"
  proof (cases "map_of (peers p) (msg_to m)")
    case None
    moreover from None have "msg_to m \<notin> fst ` set (peers p)"
      by (simp add: map_of_eq_None_iff)
    ultimately show ?thesis
      by (simp add: SendMsg2Peer_def)
  next
    case (Some t)
    then have "msg_to m \<in> fst ` set (peers p)"
      by (metis map_of_eq_None_iff option.distinct(1))
    with Some show ?thesis
      by (auto simp: SendMsg2Peer_def Let_def GetClient_def new_object_def split: option.splits if_splits)
  qed
  show "\<forall>msgs st'. SendMsgs connect msgs (p, s) = Inr st' \<longrightarrow> (\<forall>m\<in>set msgs. msg_to m \<in> fst ` set (peers p))"
    using SendMsgs_known by blast
qed

theorem SendMsg2Peer_unknown_host_witness:
  "\<exists>w. SendMsg2Peer (\<lambda>_. 0) (demo_message 9) (demo_peer (solo_new True 1 0) [] [], demo_net) = Inl (Undefined w)"
proof -
  have "msg_to (demo_message 9) \<notin> fst ` set (peers (demo_peer (solo_new True 1 0) [] []))"
    by (simp add: demo_defs)
  with SendMsg2Peer_unknown_host [of "\<lambda>_. 0" "demo_message 9" "demo_peer (solo_new True 1 0) [] []" demo_net]
  show ?thesis
    by simp
qed

end
