(* ===== verification/Peer_Host.thy ===== *)
theory Peer_Host
  imports Peer_Ready
begin

text \<open>
  The class \<^verbatim>\<open>PeerHost\<close> (peer/peer\_host.h, peer/peer\_host.cc): the peers that live on one
  server and the RPC clients they share. \<^verbatim>\<open>GetClient\<close> is in the theory
  \<^verbatim>\<open>Rpc_Clients\<close>; the state here extends the record \<open>net\<close> on which it works.
\<close>

section \<open>State and operations\<close>

record 'ms PeerHostOption =
  ho_host_id :: HostId
  ho_worker :: worker_ptr
  ho_db_path :: string
  ho_storage :: "'ms option"

definition default_PeerHostOption :: "'ms PeerHostOption" where
  "default_PeerHostOption = \<lparr>ho_host_id = kNoHost, ho_worker = 0, ho_db_path = [], ho_storage = None\<rparr>"

record ('rn, 'db, 'ms) PeerHost = net +
  host_opt :: "'ms PeerHostOption"
  local_peers :: "PeerId \<rightharpoonup> ('rn, 'db) Peer"

text \<open>The constructor; \<open>rs\<close> is the state of the RPC layer it is created in.\<close>

definition new_PeerHost :: "replies \<Rightarrow> 'ms PeerHostOption \<Rightarrow> ('rn, 'db, 'ms) PeerHost" where
  "new_PeerHost rs opt = \<lparr>resps = resps rs, runs = runs rs, rpc_cli_mgr = Map.empty, sent = [],
     next_obj = 0, live_objs = {}, awaiting = [],
     host_opt = opt, local_peers = Map.empty\<rparr>"

definition host_id :: "('rn, 'db, 'ms, 'z) PeerHost_scheme \<Rightarrow> HostId" where
  "host_id s = ho_host_id (host_opt s)"

definition host_db_path :: "('rn, 'db, 'ms, 'z) PeerHost_scheme \<Rightarrow> string" where
  "host_db_path s = ho_db_path (host_opt s)"

definition mutable_local_peers :: "PeerId \<Rightarrow> ('rn, 'db, 'ms, 'z) PeerHost_scheme \<Rightarrow> ('rn, 'db) Peer option" where
  "mutable_local_peers i s = (case local_peers s i of None \<Rightarrow> None | Some p \<Rightarrow> Some p)"

definition CheckPeerOption :: "'ms PeerOption \<Rightarrow> ('rn, 'db, 'ms, 'z) PeerHost_scheme \<Rightarrow> unit outcome" where
  "CheckPeerOption opt s =
     (if po_peer_id opt \<le> 0 then fatal ''peer id should be valid''
      else if po_host_id opt \<noteq> ho_host_id (host_opt s)
        then fatal ''peer's host_id should be the same as local host_id''
      else Inr ())"

definition AddLocalPeer :: "('rn, 'ms) jraft \<Rightarrow> 'db leveldb \<Rightarrow> (char \<Rightarrow> string \<Rightarrow> string list)
    \<Rightarrow> filesystem \<Rightarrow> (member_table \<Rightarrow> member_table) \<Rightarrow> 'ms PeerOption
    \<Rightarrow> ('rn, 'db, 'ms, 'z) PeerHost_scheme \<Rightarrow> ('rn, 'db, 'ms, 'z) PeerHost_scheme outcome" where
  "AddLocalPeer jr ldb split fs iter opt s =
     (if local_peers s (po_peer_id opt) \<noteq> None then fatal ''RaftNode already existed''
      else obind (CheckPeerOption opt s) (\<lambda>_.
        obind (new_Peer jr ldb split fs iter opt (host_db_path s)) (\<lambda>p.
          Inr (s\<lparr>local_peers := (local_peers s)(po_peer_id opt \<mapsto> p)\<rparr>))))"

text \<open>
  A call of a method of a local peer: the peer is reached through its pointer in the table, so what
  the method does to it is visible there afterwards.
\<close>

definition with_peer :: "PeerId \<Rightarrow> (('rn, 'db) Peer \<times> ('rn, 'db, 'ms, 'z) PeerHost_scheme
      \<Rightarrow> (('rn, 'db) Peer \<times> ('rn, 'db, 'ms, 'z) PeerHost_scheme) outcome)
    \<Rightarrow> ('rn, 'db) Peer \<Rightarrow> ('rn, 'db, 'ms, 'z) PeerHost_scheme
    \<Rightarrow> ('rn, 'db, 'ms, 'z) PeerHost_scheme outcome" where
  "with_peer i f p s = obind (f (p, s)) (\<lambda>(p', s').
     Inr (s'\<lparr>local_peers := (local_peers s')(i \<mapsto> p')\<rparr>))"

section \<open>The host invariant\<close>

text \<open>
  Every local peer is filed under its own nonzero identifier, belongs to this host, has a
  well-formed member table and a database directory of its own below the host's.
\<close>

definition peer_dir :: "string \<Rightarrow> PeerId \<Rightarrow> string" where
  "peer_dir base i = base @ ''/'' @ ''peer_'' @ to_string i"

definition local_peer_ok :: "('rn, 'db, 'ms, 'z) PeerHost_scheme \<Rightarrow> PeerId \<Rightarrow> ('rn, 'db) Peer \<Rightarrow> bool" where
  "local_peer_ok s i p \<longleftrightarrow> i \<noteq> 0 \<and> gm_peer_id (self p) = i \<and> gm_host_id (self p) = host_id s
     \<and> members_ok (peers p) \<and> db_path (kv_db p) = peer_dir (host_db_path s) i"

definition host_ok :: "('rn, 'db, 'ms, 'z) PeerHost_scheme \<Rightarrow> bool" where
  "host_ok s \<longleftrightarrow> (\<forall>i p. local_peers s i = Some p \<longrightarrow> local_peer_ok s i p)"

lemma peer_dir_inj: "peer_dir base i = peer_dir base j \<Longrightarrow> i = j"
  by (simp add: peer_dir_def to_string_inj)

lemma host_ok_new [simp]: "host_ok (new_PeerHost rs opt)"
  by (simp add: host_ok_def new_PeerHost_def)

lemma new_Peer_state:
  assumes "new_Peer jr ldb split fs iter opt path = Inr p"
  shows "self p = \<lparr>gm_host_id = po_host_id opt, gm_peer_id = po_peer_id opt,
      gm_ip = po_ip opt, gm_port = po_port opt\<rparr>" "worker p = po_worker opt" "proposals p = []"
    "members_ok (peers p)" "db_path (kv_db p) = peer_dir path (po_peer_id opt)"
    "InitGroupMembers split (po_members opt) [] = Inr (peers p)"
proof -
  obtain ps where ps: "InitGroupMembers split (po_members opt) [] = Inr ps" "peers p = ps"
    using assms by (auto simp: new_Peer_def Let_def split: option.splits prod.splits if_splits)
  then show "members_ok (peers p)" "InitGroupMembers split (po_members opt) [] = Inr (peers p)"
    using InitGroupMembers_members_ok [OF ps(1)] by simp_all
qed (use assms in \<open>auto simp: new_Peer_def new_DiskStorage_def peer_dir_def Let_def
       split: option.splits prod.splits if_splits Status.splits\<close>)

lemma AddLocalPeer_Inr:
  assumes "AddLocalPeer jr ldb split fs iter opt s = Inr s'"
  obtains p where "local_peers s (po_peer_id opt) = None" and "po_peer_id opt \<noteq> 0"
    and "po_host_id opt = host_id s"
    and "new_Peer jr ldb split fs iter opt (host_db_path s) = Inr p"
    and "s' = s\<lparr>local_peers := (local_peers s)(po_peer_id opt \<mapsto> p)\<rparr>"
  using assms by (auto simp: AddLocalPeer_def CheckPeerOption_def host_id_def split: if_splits)

section \<open>Properties\<close>

text \<open>
  C27: adding a peer keeps the host in order. From a host in order, \<^verbatim>\<open>AddLocalPeer\<close> either
  stops or files exactly one new peer, under an identifier that was free, with the configured
  identity, an empty proposal queue and the parsed member table; all other peers and the rest of
  the host are unchanged, and the host is in order again. In particular no two local peers ever
  share a database directory.
\<close>

theorem AddLocalPeer_invariant:
  assumes "AddLocalPeer jr ldb split fs iter opt s = Inr s'" and "host_ok s"
  shows "host_ok s' \<and> local_peers s (po_peer_id opt) = None
    \<and> (\<exists>p. s' = s\<lparr>local_peers := (local_peers s)(po_peer_id opt \<mapsto> p)\<rparr> \<and> proposals p = []
        \<and> self p = \<lparr>gm_host_id = po_host_id opt, gm_peer_id = po_peer_id opt,
            gm_ip = po_ip opt, gm_port = po_port opt\<rparr>
        \<and> InitGroupMembers split (po_members opt) [] = Inr (peers p))
    \<and> (\<forall>i j p q. local_peers s' i = Some p \<and> local_peers s' j = Some q \<and> i \<noteq> j
        \<longrightarrow> db_path (kv_db p) \<noteq> db_path (kv_db q))"
proof -
  from assms(1) obtain p where p: "local_peers s (po_peer_id opt) = None" "po_peer_id opt \<noteq> 0"
    "po_host_id opt = host_id s" "new_Peer jr ldb split fs iter opt (host_db_path s) = Inr p"
    "s' = s\<lparr>local_peers := (local_peers s)(po_peer_id opt \<mapsto> p)\<rparr>"
    by (rule AddLocalPeer_Inr)
  note new = new_Peer_state [OF p(4)]
  have ok: "host_ok s'"
    using assms(2) p(2,3) new by (auto simp: p(5) host_ok_def local_peer_ok_def host_id_def host_db_path_def)
  moreover have "db_path (kv_db a) \<noteq> db_path (kv_db b)"
    if "local_peers s' i = Some a" "local_peers s' j = Some b" "i \<noteq> j" for i j a b
    using ok that peer_dir_inj by (metis host_ok_def local_peer_ok_def)
  ultimately show ?thesis
    using p(1,5) new by blast
qed

definition demo_option :: "u64 \<Rightarrow> Snapshot PeerOption" where
  "demo_option i = default_PeerOption\<lparr>po_host_id := 1, po_peer_id := i,
     po_members := ''1,1,a,10|2,1,b,20'', po_storage := Some empty_snapshot\<rparr>"

definition demo_host :: "(PeerId \<rightharpoonup> demo_peer) \<Rightarrow> (solo, (bytes \<times> bytes) list, Snapshot) PeerHost" where
  "demo_host ps = \<lparr>resps = \<lambda>_. default_KvResp, runs = [], rpc_cli_mgr = Map.empty, sent = [],
     next_obj = 0, live_objs = {}, awaiting = [],
     host_opt = \<lparr>ho_host_id = 1, ho_worker = 0, ho_db_path = ''host'', ho_storage = None\<rparr>,
     local_peers = ps\<rparr>"

text \<open>The peer that a host built from \<open>demo_option\<close> holds.\<close>

definition demo_added :: "u64 \<Rightarrow> demo_peer" where
  "demo_added i = \<lparr>self = \<lparr>gm_host_id = 1, gm_peer_id = i, gm_ip = ''127.0.0.1'', gm_port = 0\<rparr>,
     worker = 0, peers = [(1, \<lparr>gm_host_id = 1, gm_peer_id = 1, gm_ip = ''a'', gm_port = 10\<rparr>),
       (2, \<lparr>gm_host_id = 2, gm_peer_id = 1, gm_ip = ''b'', gm_port = 20\<rparr>)],
     raw_node = solo_new True 1 0,
     kv_db = \<lparr>db_path = peer_dir ''host'' i, db = []\<rparr>, proposals = []\<rparr>"

lemma demo_new_Peer:
  "new_Peer solo_raft mem_leveldb ref_split demo_fs id (demo_option i) ''host'' = Inr (demo_added i)"
proof -
  have "InitGroupMembers ref_split ''1,1,a,10|2,1,b,20'' [] =
      Inr [(1, \<lparr>gm_host_id = 1, gm_peer_id = 1, gm_ip = ''a'', gm_port = 10\<rparr>),
        (2, \<lparr>gm_host_id = 2, gm_peer_id = 1, gm_ip = ''b'', gm_port = 20\<rparr>)]"
    by (simp add: InitGroupMembers_def InitGroupMember_def atoi_def atoi_sign_def is_space_def
        is_digit_def digit_val_def)
  then show ?thesis
    by (simp add: new_Peer_def new_DiskStorage_def demo_fs_def mem_leveldb_def demo_option_def demo_added_def
        default_PeerOption_def solo_raft_def peer_dir_def)
qed

lemma demo_AddLocalPeer:
  "i \<noteq> 0 \<Longrightarrow> AddLocalPeer solo_raft mem_leveldb ref_split demo_fs id (demo_option i)
     (demo_host Map.empty) = Inr (demo_host [i \<mapsto> demo_added i])"
  using demo_new_Peer [of i]
  by (simp add: AddLocalPeer_def CheckPeerOption_def demo_option_def demo_host_def host_db_path_def)

theorem AddLocalPeer_invariant_witness:
  "host_ok (demo_host [1 \<mapsto> demo_added 1])"
  using AddLocalPeer_invariant [OF demo_AddLocalPeer [of 1]] by (simp add: host_ok_def demo_host_def)



end
