(* ===== verification/Services.thy ===== *)
theory Services
  imports Peer_Host Peer_Answers
begin

text \<open>
  The two RPC services of a server, \<^verbatim>\<open>KvServiceImpl\<close> (service/kv\_service.cc) and
  \<^verbatim>\<open>RaftMsgServiceImpl\<close> (service/raft\_msg\_service.cc), and the event loop of the host's
  worker as a step relation: requests arrive, queued callbacks run, timers fire, replies to sent messages come back. The event loop
  itself is library code; the relation lets it run the queued callbacks in any order.
\<close>

section \<open>State\<close>

text \<open>The callbacks the services hand to \<^verbatim>\<open>RunInLoop\<close>.\<close>

datatype task = KvOpTask KvReq resp_ptr closure_ptr | RaftMsgTask RaftMsgReq closure_ptr

fun task_done :: "task \<Rightarrow> closure_ptr" where
  "task_done (KvOpTask req resp d) = d"
| "task_done (RaftMsgTask req d) = d"

record ('rn, 'db, 'ms) server = "('rn, 'db, 'ms) PeerHost" +
  loop_tasks :: "task list"
  timers :: "PeerId list"

definition RunInLoop :: "task \<Rightarrow> ('rn, 'db, 'ms, 'z) server_scheme \<Rightarrow> ('rn, 'db, 'ms, 'z) server_scheme" where
  "RunInLoop t s = s\<lparr>loop_tasks := loop_tasks s @ [t]\<rparr>"

section \<open>KvService\<close>

definition KvOp :: "KvReq \<Rightarrow> resp_ptr \<Rightarrow> closure_ptr \<Rightarrow> ('rn, 'db, 'ms, 'z) server_scheme
    \<Rightarrow> ('rn, 'db, 'ms, 'z) server_scheme" where
  "KvOp req resp d s = RunInLoop (KvOpTask req resp d) s"

definition KvOpCb :: "('rn, 'ms) jraft \<Rightarrow> pb_codec \<Rightarrow> KvReq \<Rightarrow> resp_ptr \<Rightarrow> closure_ptr
    \<Rightarrow> ('rn, 'db, 'ms, 'z) PeerHost_scheme \<Rightarrow> ('rn, 'db, 'ms, 'z) PeerHost_scheme outcome" where
  "KvOpCb jr pb req resp d s =
     (case mutable_local_peers 1 s of
        None \<Rightarrow> fatal ''peer should exist''
      | Some peer \<Rightarrow>
          if \<not> IsLeader jr peer
          then let done_guard = guard_new (Some d)
               in Inr (guard_destroy done_guard (set_rejected resp s))
          else with_peer 1 (\<lambda>(p, s1). obind (ProposeKvOp jr pb req resp d p) (\<lambda>p'. Inr (p', s1))) peer s)"

section \<open>RaftMsgService\<close>

definition HandleRaftMsg :: "RaftMsgReq \<Rightarrow> closure_ptr \<Rightarrow> ('rn, 'db, 'ms, 'z) server_scheme
    \<Rightarrow> ('rn, 'db, 'ms, 'z) server_scheme outcome" where
  "HandleRaftMsg req d s =
     (if meta_host_id (to_peer req) \<noteq> host_id s then fatal ''send to wrong host''
      else Inr (RunInLoop (RaftMsgTask req d) s))"

definition HandleRaftMsgCb :: "('rn, 'ms) jraft \<Rightarrow> RaftMsgReq \<Rightarrow> closure_ptr
    \<Rightarrow> ('rn, 'db, 'ms, 'z) PeerHost_scheme \<Rightarrow> ('rn, 'db, 'ms, 'z) PeerHost_scheme outcome" where
  "HandleRaftMsgCb jr req d s =
     (let done_guard = guard_new (Some d)
      in case mutable_local_peers (meta_peer_id (to_peer req)) s of
           None \<Rightarrow> fatal ''peer should exist''
         | Some peer \<Rightarrow>
             obind (with_peer (meta_peer_id (to_peer req))
               (\<lambda>(p, s1). let (err, p') = Step jr (raft_msg req) p in Inr (p', s1)) peer s)
             (\<lambda>s'. Inr (guard_destroy done_guard s')))"

section \<open>Timers and the event loop\<close>

text \<open>\<^verbatim>\<open>Peer::StartTimer\<close> of the local peer \<open>i\<close>.\<close>

definition StartTimer :: "PeerId \<Rightarrow> ('rn, 'db, 'ms, 'z) server_scheme \<Rightarrow> ('rn, 'db, 'ms, 'z) server_scheme" where
  "StartTimer i s = s\<lparr>timers := timers s @ [i]\<rparr>"

definition run_task :: "('rn, 'ms) jraft \<Rightarrow> pb_codec \<Rightarrow> task \<Rightarrow> ('rn, 'db, 'ms, 'z) PeerHost_scheme
    \<Rightarrow> ('rn, 'db, 'ms, 'z) PeerHost_scheme outcome" where
  "run_task jr pb t s = (case t of
     KvOpTask req resp d \<Rightarrow> KvOpCb jr pb req resp d s
   | RaftMsgTask req d \<Rightarrow> HandleRaftMsgCb jr req d s)"

text \<open>The closures the server holds: run, pending at its peers, or in queued callbacks.\<close>

definition peer_pending :: "('rn, 'db, 'ms, 'z) PeerHost_scheme \<Rightarrow> PeerId \<Rightarrow> closure_ptr list" where
  "peer_pending s i = (case local_peers s i of None \<Rightarrow> [] | Some p \<Rightarrow> map p_done (proposals p))"

definition held :: "('rn, 'db, 'ms, 'z) server_scheme \<Rightarrow> closure_ptr list" where
  "held s = ran s @ peer_pending s 1 @ map task_done (loop_tasks s)"

text \<open>
  A step of the server. The RPC layer passes every call a closure of its own, so an arriving closure
  is not one the server holds.
\<close>

inductive server_step :: "('rn, 'ms) jraft \<Rightarrow> 'db leveldb \<Rightarrow> pb_codec \<Rightarrow> (RpcClient \<Rightarrow> int)
    \<Rightarrow> ('rn, 'db, 'ms) server \<Rightarrow> ('rn, 'db, 'ms) server \<Rightarrow> bool"
  for jr ldb pb connect where
  kv_arrives: "d \<notin> set (held s) \<Longrightarrow> server_step jr ldb pb connect s (KvOp req resp d s)"
| raft_arrives: "d \<notin> set (held s) \<Longrightarrow> HandleRaftMsg req d s = Inr s'
    \<Longrightarrow> server_step jr ldb pb connect s s'"
| task_runs: "loop_tasks s = ts @ t # us \<Longrightarrow> run_task jr pb t (s\<lparr>loop_tasks := ts @ us\<rparr>) = Inr s'
    \<Longrightarrow> server_step jr ldb pb connect s s'"
| timer_fires: "i \<in> set (timers s) \<Longrightarrow> local_peers s i = Some p
    \<Longrightarrow> with_peer i (Tick jr ldb pb connect) p s = Inr s' \<Longrightarrow> server_step jr ldb pb connect s s'"
| reply_arrives: "awaiting s = xs @ (cntl, resp) # ys
    \<Longrightarrow> HandleSendMsg2Peer cntl resp (s\<lparr>awaiting := xs @ ys\<rparr>) = Inr s' \<Longrightarrow> server_step jr ldb pb connect s s'"

section \<open>Frame and accounting lemmas\<close>

lemma apply_entry_path: "apply_entry ldb pb e d = Inr d' \<Longrightarrow> db_path d' = db_path d"
  by (auto simp: apply_entry_def DiskStorage_defs
      split: if_splits option.splits CmdType.splits prod.splits Status.splits)

lemma ProcessEntries_path:
  assumes "ProcessEntries jr ldb pb es (p, s) = Inr (p', s')"
  shows "db_path (kv_db p') = db_path (kv_db p)"
  by (rule ofold_unchanged [where a = db_path, OF ProcessEntries_store [OF assms]]) (rule apply_entry_path)

lemma ProcessEntries_account:
  assumes "ProcessEntries jr ldb pb es (p, s) = Inr (p', s')"
  shows "\<exists>more. ran s' = ran s @ more \<and>
    mset more + mset (map p_done (proposals p')) \<subseteq># mset (map p_done (proposals p))"
proof -
  have run: "ofold (ProcessEntry jr ldb pb) es (p, s) = Inr (p', s')"
    using assms by (simp add: ProcessEntries_def)
  obtain more where more: "ran s' = ran s @ more"
    using peer_closures.run_grows [OF run] by (auto simp: answers_def)
  then show ?thesis
    using peer_closures.run_account [OF run] by (simp add: answers_def pending_def)
qed

lemma ran_cong: "runs s' = runs s \<Longrightarrow> ran s' = ran s"
  by (simp add: ran_def)

lemma Tick_frame:
  assumes "Tick jr ldb pb connect (p, s) = Inr (p', s')"
  shows "peers p' = peers p \<and> self p' = self p \<and> db_path (kv_db p') = db_path (kv_db p)
    \<and> net.more s' = net.more s
    \<and> (\<exists>ms. map snd (sent s') = map snd (sent s) @ map (envelope p) ms
        \<and> (\<forall>m\<in>set ms. msg_to m \<in> fst ` set (peers p)))
    \<and> (\<exists>more. ran s' = ran s @ more \<and>
        mset more + mset (map p_done (proposals p')) \<subseteq># mset (map p_done (proposals p)))"
proof -
  define q where "q = p\<lparr>raw_node := rn_Tick jr (raw_node p)\<rparr>"
  have run: "HandleRaftReady jr ldb pb connect (q, s) = Inr (p', s')"
    using assms by (simp add: Tick_def q_def)
  show ?thesis
  proof (cases "rn_HasReady jr (raw_node q)")
    case False
    then show ?thesis
      using run by (auto simp: HandleRaftReady_def q_def intro: exI [of _ "[]"])
  next
    case True
    define q1 where "q1 = q\<lparr>raw_node := stored_node jr (raw_node q)\<rparr>"
    define rd where "rd = ready_of jr (raw_node q)"
    obtain q2 s1 p3 where S: "SendMsgs connect (rd_messages rd) (q1, s) = Inr (q2, s1)"
      and E: "ProcessEntries jr ldb pb (rd_committed_entries rd) (q2, s1) = Inr (p3, s')"
      and p': "p' = p3\<lparr>raw_node := rn_Advance jr (raw_node p3) rd\<rparr>"
      using run HandleRaftReady_stages [OF True, of ldb pb connect s]
      by (auto simp: q1_def rd_def)
    note send = SendMsgs_Inr [OF S] and known = SendMsgs_known [OF S]
    note frame = ProcessEntries_frame [OF E] ProcessEntries_path [OF E] ProcessEntries_account [OF E]
    have "map snd (sent s') = map snd (sent s) @ map (envelope p) (rd_messages rd)"
      using send sent_more [of s' s1] frame(1) by (auto simp: q1_def q_def)
    moreover have "net.more s' = net.more s"
      using send frame(1) by (cases s'; cases s1) simp
    moreover have "ran s1 = ran s"
      using send by (intro ran_cong) simp
    moreover have "q2 = q1"
      using send by simp
    ultimately show ?thesis
      using frame known by (simp add: p' q1_def q_def) blast
  qed
qed

lemma net_more_server:
  fixes s s' :: "('rn, 'db, 'ms) server"
  assumes "net.more s' = net.more s"
  shows "host_opt s' = host_opt s" "local_peers s' = local_peers s" "loop_tasks s' = loop_tasks s"
    "timers s' = timers s"
  using assms by (cases s; cases s'; simp)+

section \<open>The server invariant\<close>

text \<open>Every request handed to the RPC layer comes from this host and names its destination's host.\<close>

definition routed :: "('rn, 'db, 'ms, 'z) PeerHost_scheme \<Rightarrow> bool" where
  "routed s \<longleftrightarrow> (\<forall>r\<in>snd ` set (sent s). meta_host_id (to_peer r) = msg_to (raft_msg r)
     \<and> meta_host_id (from_peer r) = host_id s)"

definition server_inv :: "('rn, 'db, 'ms) server \<Rightarrow> bool" where
  "server_inv s \<longleftrightarrow> host_ok s \<and> distinct (held s) \<and> routed s
     \<and> (\<forall>i p. i \<noteq> 1 \<and> local_peers s i = Some p \<longrightarrow> proposals p = [])"

text \<open>What no step changes: the options, and of every local peer the identity and the member table.\<close>

definition peers_kept :: "('rn, 'db, 'ms) server \<Rightarrow> ('rn, 'db, 'ms) server \<Rightarrow> bool" where
  "peers_kept s s' \<longleftrightarrow> host_opt s' = host_opt s \<and>
     (\<forall>i p'. local_peers s' i = Some p' \<longrightarrow> (\<exists>p. local_peers s i = Some p \<and> self p' = self p
        \<and> peers p' = peers p \<and> db_path (kv_db p') = db_path (kv_db p)
        \<and> (i \<noteq> 1 \<and> proposals p = [] \<longrightarrow> proposals p' = [])))"

lemma peers_kept_refl [intro]: "local_peers s' = local_peers s \<Longrightarrow> host_opt s' = host_opt s \<Longrightarrow> peers_kept s s'"
  by (auto simp: peers_kept_def)

lemma peers_kept_dom: "peers_kept s s' \<Longrightarrow> dom (local_peers s') \<subseteq> dom (local_peers s)"
  by (fastforce simp: peers_kept_def)

lemma peers_kept_inv:
  assumes "server_inv s" and "peers_kept s s'" and "distinct (held s')" and "routed s'"
  shows "server_inv s'"
proof -
  have "local_peer_ok s' i p' \<and> (i \<noteq> 1 \<longrightarrow> proposals p' = [])" if p': "local_peers s' i = Some p'" for i p'
  proof -
    obtain p where p: "local_peers s i = Some p" "self p' = self p" "peers p' = peers p"
      "db_path (kv_db p') = db_path (kv_db p)" "i \<noteq> 1 \<and> proposals p = [] \<longrightarrow> proposals p' = []"
      using assms(2) p' unfolding peers_kept_def by blast
    then have "local_peer_ok s i p" "i \<noteq> 1 \<longrightarrow> proposals p = []"
      using assms(1) unfolding server_inv_def host_ok_def by blast+
    with p assms(2) show ?thesis
      by (simp add: local_peer_ok_def host_id_def host_db_path_def peers_kept_def)
  qed
  then show ?thesis
    using assms(3,4) unfolding server_inv_def host_ok_def by blast
qed

lemma ProposeKvOp_frame:
  assumes "ProposeKvOp jr pb req r d p = Inr p'" and "IsLeader jr p"
  shows "self p' = self p" "peers p' = peers p" "kv_db p' = kv_db p"
    "map p_done (proposals p') = map p_done (proposals p) @ [d]"
  using assms by (auto simp: ProposeKvOp_def Let_def new_Proposal_def split: option.splits)

lemma KvOpCb_Inr:
  assumes "KvOpCb jr pb req r d s = Inr s'"
  obtains (rejected) p where "local_peers s 1 = Some p" "\<not> IsLeader jr p" "s' = Run d (set_rejected r s)"
  | (proposed) p p' where "local_peers s 1 = Some p" "IsLeader jr p"
      "ProposeKvOp jr pb req r d p = Inr p'" "s' = s\<lparr>local_peers := (local_peers s)(1 \<mapsto> p')\<rparr>"
  using assms
  by (auto simp: KvOpCb_def with_peer_def mutable_local_peers_def guard_defs Let_def
      split: option.splits if_splits)

lemma HandleRaftMsgCb_Inr:
  assumes "HandleRaftMsgCb jr req d s = Inr s'"
  obtains p e p' where "local_peers s (meta_peer_id (to_peer req)) = Some p"
    "Step jr (raft_msg req) p = (e, p')"
    "s' = Run d (s\<lparr>local_peers := (local_peers s)(meta_peer_id (to_peer req) \<mapsto> p')\<rparr>)"
  using assms
  by (auto simp: HandleRaftMsgCb_def with_peer_def mutable_local_peers_def guard_defs Let_def
      split: option.splits prod.splits)

lemma server_replies_ops [simp]:
  fixes s :: "('rn, 'db, 'ms, 'z) server_scheme"
  shows "local_peers (Run d s) = local_peers s" "host_opt (Run d s) = host_opt s" "sent (Run d s) = sent s"
    "loop_tasks (Run d s) = loop_tasks s" "local_peers (set_rejected r s) = local_peers s"
    "host_opt (set_rejected r s) = host_opt s" "sent (set_rejected r s) = sent s"
    "loop_tasks (set_rejected r s) = loop_tasks s"
  by (simp_all add: Run_def set_rejected_def)

lemma run_task_account:
  fixes s :: "('rn, 'db, 'ms) server"
  assumes "run_task jr pb t s = Inr s'"
  shows "peers_kept s s' \<and> mset (held s') = mset (held s) + {#task_done t#} \<and> sent s' = sent s"
proof (cases t)
  case (KvOpTask req r d)
  with assms have "KvOpCb jr pb req r d s = Inr s'"
    by (simp add: run_task_def)
  then show ?thesis
  proof (cases rule: KvOpCb_Inr)
    case (rejected p)
    then show ?thesis
      by (auto simp: KvOpTask held_def peer_pending_def)
  next
    case (proposed p p')
    with ProposeKvOp_frame [OF proposed(3,2)] show ?thesis
      by (auto simp: KvOpTask held_def peer_pending_def peers_kept_def ran_def)
  qed
next
  case (RaftMsgTask req d)
  with assms have "HandleRaftMsgCb jr req d s = Inr s'"
    by (simp add: run_task_def)
  then show ?thesis
    by (cases rule: HandleRaftMsgCb_Inr)
      (auto simp: RaftMsgTask held_def peer_pending_def peers_kept_def Step_def ran_def split: prod.splits)
qed

lemma envelope_routed:
  assumes "members_ok (peers p)" and "msg_to m \<in> fst ` set (peers p)"
  shows "meta_host_id (to_peer (envelope p m)) = msg_to m" "raft_msg (envelope p m) = m"
    "meta_host_id (from_peer (envelope p m)) = gm_host_id (self p)"
proof -
  obtain t where t: "map_of (peers p) (msg_to m) = Some t"
    using assms(2) by (metis map_of_eq_None_iff not_None_eq)
  with members_ok_find [OF assms(1) t]
  show "meta_host_id (to_peer (envelope p m)) = msg_to m" "raft_msg (envelope p m) = m"
    "meta_host_id (from_peer (envelope p m)) = gm_host_id (self p)"
    by (simp_all add: envelope_def)
qed

lemma timer_step:
  fixes s :: "('rn, 'db, 'ms) server"
  assumes "server_inv s" and "local_peers s i = Some p" and "with_peer i (Tick jr ldb pb connect) p s = Inr s'"
  shows "peers_kept s s' \<and> mset (held s') \<subseteq># mset (held s) \<and> routed s'"
proof -
  obtain p' s1 where T: "Tick jr ldb pb connect (p, s) = Inr (p', s1)"
    and s': "s' = s1\<lparr>local_peers := (local_peers s1)(i \<mapsto> p')\<rparr>"
    using assms(3) by (auto simp: with_peer_def)
  from Tick_frame [OF T] obtain ms more where frame: "peers p' = peers p" "self p' = self p"
    "db_path (kv_db p') = db_path (kv_db p)" "net.more s1 = net.more s"
    and ms: "map snd (sent s1) = map snd (sent s) @ map (envelope p) ms"
      "\<forall>m\<in>set ms. msg_to m \<in> fst ` set (peers p)"
    and more: "ran s1 = ran s @ more" "mset more + mset (map p_done (proposals p')) \<subseteq># mset (map p_done (proposals p))"
    by blast
  note same = net_more_server [OF frame(4)]
  have ok: "members_ok (peers p)" "gm_host_id (self p) = host_id s" "i \<noteq> 1 \<Longrightarrow> proposals p = []"
    using assms(1,2) by (auto simp: server_inv_def host_ok_def local_peer_ok_def)
  have "peers_kept s s'"
    using assms(2) frame more(2) by (auto simp: peers_kept_def s' same)
  moreover have "mset (held s') \<subseteq># mset (held s)"
    using assms(2) more ok(3) by (cases "i = 1") (auto simp: held_def peer_pending_def s' same ran_def)
  moreover have "routed s'"
  proof -
    have "snd ` set (sent s') = snd ` set (sent s) \<union> envelope p ` set ms"
      using arg_cong [OF ms(1), of set] by (simp add: s')
    then show ?thesis
      using assms(1) ms(2) envelope_routed [OF ok(1)] ok(2)
      by (auto simp: server_inv_def routed_def host_id_def s' same)
  qed
  ultimately show ?thesis
    by blast
qed

lemma held_arrival:
  fixes s :: "('rn, 'db, 'ms) server"
  shows "held (RunInLoop t s) = held s @ [task_done t]" "sent (RunInLoop t s) = sent s"
    "peers_kept s (RunInLoop t s)" "host_id (RunInLoop t s) = host_id s"
  by (auto simp: held_def RunInLoop_def peer_pending_def ran_def host_id_def)

lemma routed_cong: "routed s \<Longrightarrow> sent s' = sent s \<Longrightarrow> host_id s' = host_id s \<Longrightarrow> routed s'"
  by (simp add: routed_def)

lemma server_step_inv:
  assumes "server_step jr ldb pb connect s s'" and "server_inv s"
  shows "server_inv s'" and "peers_kept s s'"
proof -
  have "peers_kept s s' \<and> distinct (held s') \<and> routed s'"
    using assms
  proof (cases rule: server_step.cases)
    case (kv_arrives d req resp)
    with assms(2) show ?thesis
      by (auto simp: KvOp_def held_arrival server_inv_def intro: routed_cong)
  next
    case (raft_arrives d req)
    then have "s' = RunInLoop (RaftMsgTask req d) s"
      by (auto simp: HandleRaftMsg_def split: if_splits)
    with assms(2) raft_arrives(1) show ?thesis
      by (auto simp: held_arrival server_inv_def intro: routed_cong)
  next
    case (task_runs ts t us)
    let ?s = "s\<lparr>loop_tasks := ts @ us\<rparr>"
    note run = run_task_account [OF task_runs(2)]
    have "mset (held s') = mset (held s)"
      using run task_runs(1) by (simp add: held_def peer_pending_def ran_def)
    then have "distinct (held s')"
      using assms(2) mset_eq_imp_distinct_iff by (auto simp: server_inv_def)
    moreover have kept: "peers_kept s s'"
      using run by (simp add: peers_kept_def)
    moreover have "routed s'"
      using assms(2) run kept by (auto simp: server_inv_def routed_def host_id_def peers_kept_def)
    ultimately show ?thesis
      by blast
  next
    case (timer_fires i p)
    from timer_step [OF assms(2) timer_fires(2,3)] show ?thesis
      using assms(2) distinct_submset by (auto simp: server_inv_def)
  next
    case (reply_arrives xs cntl resp ys)
    then have s': "s' = s\<lparr>awaiting := xs @ ys, live_objs := live_objs s - {resp} - {cntl}\<rparr>"
      by (auto simp: HandleSendMsg2Peer_def delete_object_def split: if_splits)
    with assms(2) show ?thesis
      by (auto simp: server_inv_def held_def peer_pending_def ran_def routed_def host_id_def)
  qed
  then show "server_inv s'" "peers_kept s s'"
    using peers_kept_inv [OF assms(2)] by blast+
qed

lemma server_reachable_inv:
  assumes "(server_step jr ldb pb connect)\<^sup>*\<^sup>* s0 s" and "server_inv s0"
  shows "server_inv s \<and> host_opt s = host_opt s0 \<and> dom (local_peers s) \<subseteq> dom (local_peers s0)"
  using assms
proof (induction rule: rtranclp_induct)
  case (step s s')
  then have "server_inv s" "host_opt s = host_opt s0" "dom (local_peers s) \<subseteq> dom (local_peers s0)"
    by simp_all
  moreover note server_step_inv [OF step.hyps(2) \<open>server_inv s\<close>]
  moreover from this(2) have "host_opt s' = host_opt s" "dom (local_peers s') \<subseteq> dom (local_peers s)"
    by (simp_all add: peers_kept_dom) (simp add: peers_kept_def)
  ultimately show ?case
    by simp
qed simp

section \<open>Properties\<close>

text \<open>A server as it starts: peers just added, nothing sent, queued or answered.\<close>

definition server_start :: "('rn, 'db, 'ms) server \<Rightarrow> bool" where
  "server_start s \<longleftrightarrow> host_ok s \<and> runs s = [] \<and> sent s = [] \<and> loop_tasks s = []
     \<and> live_objs s = {} \<and> awaiting s = []
     \<and> (\<forall>i p. local_peers s i = Some p \<longrightarrow> proposals p = [])"

lemma server_start_inv: "server_start s \<Longrightarrow> server_inv s"
  by (auto simp: server_start_def server_inv_def held_def ran_def peer_pending_def routed_def split: option.splits)

text \<open>
  C9: at most one answer per request, in every interleaving. Let the server run from its start
  through any sequence of arriving client requests and Raft messages, queued callbacks in any order
  and timer ticks. Then no completion closure has run twice, and none that has run is still
  pending at a peer or waiting in the queue of the event loop.
\<close>

theorem server_answers_at_most_once:
  assumes "server_start s0" and "(server_step jr ldb pb connect)\<^sup>*\<^sup>* s0 s"
  shows "distinct (ran s @ peer_pending s 1 @ map task_done (loop_tasks s))
    \<and> (\<forall>i. i \<noteq> 1 \<longrightarrow> peer_pending s i = [])"
  using server_reachable_inv [OF assms(2) server_start_inv [OF assms(1)]]
  by (auto simp: server_inv_def held_def peer_pending_def split: option.splits)

definition demo_server :: "(PeerId \<rightharpoonup> demo_peer) \<Rightarrow> (solo, (bytes \<times> bytes) list, Snapshot) server" where
  "demo_server ps = \<lparr>resps = \<lambda>_. default_KvResp, runs = [], rpc_cli_mgr = Map.empty, sent = [],
     next_obj = 0, live_objs = {}, awaiting = [],
     host_opt = \<lparr>ho_host_id = 1, ho_worker = 0, ho_db_path = ''host'', ho_storage = None\<rparr>,
     local_peers = ps, loop_tasks = [], timers = [1]\<rparr>"

lemma demo_server_start: "i \<noteq> 0 \<Longrightarrow> server_start (demo_server [i \<mapsto> demo_added i])"
  by (simp add: server_start_def demo_server_def demo_added_def host_ok_def local_peer_ok_def members_ok_def
      host_id_def host_db_path_def)

theorem server_answers_at_most_once_witness:
  "distinct (ran (demo_server [1 \<mapsto> demo_added 1]) @ [] @
     map task_done [KvOpTask (mk_get ''a'') 4 8, KvOpTask (mk_get ''b'') 5 9])"
proof -
  define s0 where "s0 = demo_server [1 \<mapsto> demo_added 1]"
  let ?s1 = "RunInLoop (KvOpTask (mk_get ''a'') 4 8) s0"
  have h: "held s0 = []" "peer_pending s0 1 = []" "loop_tasks s0 = []"
    by (simp_all add: s0_def held_def demo_server_def ran_def peer_pending_def demo_added_def)
  then have "server_step solo_raft mem_leveldb demo_codec (\<lambda>_. 0) s0 ?s1"
    "server_step solo_raft mem_leveldb demo_codec (\<lambda>_. 0) ?s1 (RunInLoop (KvOpTask (mk_get ''b'') 5 9) ?s1)"
    using kv_arrives [of 8 s0 _ _ _ _ "mk_get ''a''" 4] kv_arrives [of 9 ?s1 _ _ _ _ "mk_get ''b''" 5]
    by (simp_all add: KvOp_def held_arrival)
  then have "(server_step solo_raft mem_leveldb demo_codec (\<lambda>_. 0))\<^sup>*\<^sup>* s0
      (RunInLoop (KvOpTask (mk_get ''b'') 5 9) ?s1)"
    by (meson converse_rtranclp_into_rtranclp r_into_rtranclp)
  from server_answers_at_most_once [OF _ this] demo_server_start [of 1] h(2,3) show ?thesis
    by (simp add: RunInLoop_def s0_def peer_pending_def ran_def)
qed

text \<open>
  Raft messages reach the right host. Every request that a server hands to the RPC layer in any
  reachable state names this server as the sender and, as the receiving host, the destination of
  the Raft message, so the server with that host id accepts it: the guard against wrong hosts in
  \<^verbatim>\<open>HandleRaftMsg\<close> is never the one that stops it.
\<close>

theorem sent_messages_accepted:
  fixes t :: "('rn2, 'db2, 'ms2) server"
  assumes "server_start s0" and "(server_step jr ldb pb connect)\<^sup>*\<^sup>* s0 s"
    and "(c, r) \<in> set (sent s)" and "host_id t = msg_to (raft_msg r)"
  shows "HandleRaftMsg r d t = Inr (RunInLoop (RaftMsgTask r d) t)
    \<and> meta_host_id (from_peer r) = host_id s0"
proof -
  have "server_inv s" "host_opt s = host_opt s0"
    using server_reachable_inv [OF assms(2) server_start_inv [OF assms(1)]] by simp_all
  with assms(3,4) show ?thesis
    by (force simp: server_inv_def routed_def HandleRaftMsg_def host_id_def)
qed

text \<open>A Raft node that has one message for host 2 ready after every tick.\<close>

definition ping_raft :: "(solo, Snapshot) jraft" where
  "ping_raft = solo_raft\<lparr>rn_Tick := \<lambda>n. n\<lparr>so_ready := no_ready\<lparr>rd_messages := [demo_message 2]\<rparr>\<rparr>\<rparr>"

lemma ping_step:
  "\<exists>s c. server_step ping_raft mem_leveldb demo_codec (\<lambda>_. 0) (demo_server [1 \<mapsto> demo_added 1]) s
     \<and> (c, envelope (demo_added 1) (demo_message 2)) \<in> set (sent s) \<and> loop_tasks s = []"
proof -
  define t where "t = demo_server [1 \<mapsto> demo_added 1]"
  let ?n = "solo_new True 1 0\<lparr>so_ready := no_ready\<lparr>rd_messages := [demo_message 2]\<rparr>\<rparr>"
  let ?p = "demo_added 1\<lparr>raw_node := ?n\<rparr>"
  have n: "rn_Tick ping_raft (raw_node (demo_added 1)) = ?n" "rn_HasReady ping_raft ?n"
    "ready_of ping_raft ?n = no_ready\<lparr>rd_messages := [demo_message 2]\<rparr>" "stored_node ping_raft ?n = ?n"
    "msg_to (demo_message 2) \<in> fst ` set (peers (demo_added 1))" "sent t = []"
    by (simp_all add: ping_raft_def solo_defs demo_added_def ready_of_def stored_node_def t_def demo_server_def
        demo_message_def)
  have legal: "rn_HasReady ping_raft (raw_node ?p)"
    "\<forall>m\<in>set (rd_messages (ready_of ping_raft (raw_node ?p))). msg_to m \<in> fst ` set (peers ?p)"
    "log_legal demo_codec (rd_committed_entries (ready_of ping_raft (raw_node ?p))) (disk_contents map_of (kv_db ?p))"
    using n by (simp_all add: no_ready_def)
  obtain p' s' s1 where T: "HandleRaftReady ping_raft mem_leveldb demo_codec (\<lambda>_. 0) (?p, t) =
        Inr (p'\<lparr>raw_node := rn_Advance ping_raft (raw_node p') (ready_of ping_raft (raw_node ?p))\<rparr>, s')"
    and S: "SendMsgs (\<lambda>_. 0) (rd_messages (ready_of ping_raft (raw_node ?p)))
        (?p\<lparr>raw_node := stored_node ping_raft (raw_node ?p)\<rparr>, t) =
        Inr (?p\<lparr>raw_node := stored_node ping_raft (raw_node ?p)\<rparr>, s1)"
    and E: "ProcessEntries ping_raft mem_leveldb demo_codec (rd_committed_entries (ready_of ping_raft (raw_node ?p)))
        (?p\<lparr>raw_node := stored_node ping_raft (raw_node ?p)\<rparr>, s1) = Inr (p', s')"
    by (rule HandleRaftReady_returns [OF mem_leveldb_contract mem_leveldb_reliable _ legal(1) refl legal(2,3),
          where connect = "\<lambda>_. 0" and s = t]) simp
  have "map snd (sent s') = [envelope (demo_added 1) (demo_message 2)]"
    using SendMsgs_Inr [OF S] E n by (auto simp: ProcessEntries_def no_ready_def)
  then obtain c where c: "(c, envelope (demo_added 1) (demo_message 2)) \<in> set (sent s')"
    by force
  have "net.more s' = net.more t"
    using SendMsgs_Inr [OF S] E n by (auto simp: ProcessEntries_def no_ready_def)
  then have tasks: "loop_tasks s' = []"
    using net_more_server(3) [of s' t] by (simp add: t_def demo_server_def)
  have "server_step ping_raft mem_leveldb demo_codec (\<lambda>_. 0) t (s'\<lparr>local_peers := (local_peers s')(1 \<mapsto>
      p'\<lparr>raw_node := rn_Advance ping_raft (raw_node p') (ready_of ping_raft (raw_node ?p))\<rparr>)\<rparr>)"
  proof (rule timer_fires)
    show "1 \<in> set (timers t)" "local_peers t 1 = Some (demo_added 1)"
      by (simp_all add: t_def demo_server_def)
  qed (use T n(1) in \<open>simp add: with_peer_def Tick_def\<close>)
  with c tasks show ?thesis
    unfolding t_def by fastforce
qed

theorem sent_messages_accepted_witness:
  "HandleRaftMsg (envelope (demo_added 1) (demo_message 2)) 3
      (demo_server Map.empty\<lparr>host_opt := default_PeerHostOption\<lparr>ho_host_id := 2\<rparr>\<rparr>)
   = Inr (RunInLoop (RaftMsgTask (envelope (demo_added 1) (demo_message 2)) 3)
      (demo_server Map.empty\<lparr>host_opt := default_PeerHostOption\<lparr>ho_host_id := 2\<rparr>\<rparr>))"
proof -
  let ?t = "demo_server Map.empty\<lparr>host_opt := default_PeerHostOption\<lparr>ho_host_id := 2\<rparr>\<rparr>"
  obtain s c where s: "server_step ping_raft mem_leveldb demo_codec (\<lambda>_. 0) (demo_server [1 \<mapsto> demo_added 1]) s"
    "(c, envelope (demo_added 1) (demo_message 2)) \<in> set (sent s)"
    using ping_step by blast
  have "host_id ?t = msg_to (raft_msg (envelope (demo_added 1) (demo_message 2)))"
    by (simp add: host_id_def demo_added_def envelope_def demo_message_def)
  moreover have "(server_step ping_raft mem_leveldb demo_codec (\<lambda>_. 0))\<^sup>*\<^sup>* (demo_server [1 \<mapsto> demo_added 1]) s"
    using s(1) by (rule r_into_rtranclp)
  ultimately show ?thesis
    using sent_messages_accepted [OF demo_server_start [of 1] _ s(2), where t = ?t] by simp
qed

text \<open>
  C21: a client request at a peer that is not the leader is answered at once: \<^verbatim>\<open>KvOpCb\<close> runs
  exactly the request's closure, with the response marked rejected, and proposes nothing. At the
  leader it answers nothing yet and files exactly one proposal, for the next log position of the
  current term, that holds this response and this closure.
\<close>

theorem KvOpCb_by_role:
  assumes "local_peers s 1 = Some p"
  shows "if IsLeader jr p
    then (case SerializeToString pb req of None \<Rightarrow> \<exists>w. KvOpCb jr pb req r d s = Inl (Fatal w)
      | Some x \<Rightarrow> \<exists>p'. KvOpCb jr pb req r d s = Inr (s\<lparr>local_peers := (local_peers s)(1 \<mapsto> p')\<rparr>)
          \<and> proposals p' = proposals p @ [\<lparr>p_index = rn_LastIndex jr (raw_node p) + 1, p_term = Term jr p,
              p_resp = r, p_done = d\<rparr>]
          \<and> raw_node p' = rn_Propose jr (raw_node p) x \<and> kv_db p' = kv_db p)
    else \<exists>s' h. KvOpCb jr pb req r d s = Inr s' \<and> runs s' = runs s @ [(d, h)] \<and> rejected (h r)
      \<and> local_peers s' = local_peers s"
  using assms
  by (auto simp: KvOpCb_def with_peer_def mutable_local_peers_def guard_defs ProposeKvOp_def Let_def
      new_Proposal_def NextProposalIndex_def Run_def set_rejected_def split: option.splits)

theorem KvOpCb_by_role_witness:
  "\<exists>p'. KvOpCb solo_raft demo_codec (mk_get ''a'') 4 8 (demo_server [1 \<mapsto> demo_added 1])
     = Inr (demo_server [1 \<mapsto> p']) \<and> proposals p' = [\<lparr>p_index = 1, p_term = 1, p_resp = 4, p_done = 8\<rparr>]"
proof -
  have l: "local_peers (demo_server [1 \<mapsto> demo_added 1]) 1 = Some (demo_added 1)"
    and p: "IsLeader solo_raft (demo_added 1)" "SerializeToString demo_codec (mk_get ''a'') = Some ''ga''"
      "proposals (demo_added 1) = []" "rn_LastIndex solo_raft (raw_node (demo_added 1)) = 0"
      "Term solo_raft (demo_added 1) = 1"
      "\<And>p'. demo_server [1 \<mapsto> demo_added 1]\<lparr>local_peers := (local_peers (demo_server [1 \<mapsto> demo_added 1]))(1 \<mapsto> p')\<rparr>
         = demo_server [1 \<mapsto> p']"
    by (simp_all add: demo_server_def demo_added_def IsLeader_def Term_def solo_defs demo_codec_def demo_print_def)
  from KvOpCb_by_role [OF l, of solo_raft demo_codec "mk_get ''a''" 4 8] show ?thesis
    unfolding p by (auto simp: p)
qed

text \<open>
  C37: the client service only works on a server whose peer has identifier 1. If peer 1 is not local
  when the server starts, then in every reachable state the callback of every client request ends in
  \<^verbatim>\<open>JLOG_FATAL\<close>: the first client request stops the server.
\<close>

theorem kv_service_needs_peer_1:
  assumes "server_start s0" and "local_peers s0 1 = None" and "(server_step jr ldb pb connect)\<^sup>*\<^sup>* s0 s"
  shows "KvOpCb jr pb req r d s = fatal ''peer should exist''"
proof -
  have "local_peers s 1 = None"
    using server_reachable_inv [OF assms(3) server_start_inv [OF assms(1)]] assms(2) by blast
  then show ?thesis
    by (simp add: KvOpCb_def mutable_local_peers_def)
qed

theorem kv_service_needs_peer_1_witness:
  "KvOpCb solo_raft demo_codec (mk_get ''a'') 4 8 (demo_server [2 \<mapsto> demo_added 2])
     = fatal ''peer should exist''"
  by (rule kv_service_needs_peer_1 [OF demo_server_start _ rtranclp.rtrancl_refl])
    (simp_all add: demo_server_def)

end
