(* ===== verification/Echo_Server.thy ===== *)
theory Echo_Server
  imports Services
begin

text \<open>
  The server program (example/echo/server): its command line flags, their check, and the wiring in
  \<^verbatim>\<open>main\<close> of the host, its one local peer and the two services. Parsing the command line, the
  worker threads and the listening socket are library code: the parsed flags, the worker and the
  fresh Raft storage are arguments.
\<close>

section \<open>Flags\<close>

record server_flags =
  FLAGS_host_id :: u64
  FLAGS_peer_id :: u64
  FLAGS_ip :: string
  FLAGS_port :: u32
  FLAGS_members :: string
  FLAGS_heartbeat_interval :: u64
  FLAGS_election_interval :: u64
  FLAGS_log_level :: string
  FLAGS_host_path :: string

definition default_server_flags :: server_flags where
  "default_server_flags = \<lparr>FLAGS_host_id = 0, FLAGS_peer_id = 0, FLAGS_ip = ''127.0.0.1'', FLAGS_port = 0,
     FLAGS_members = [], FLAGS_heartbeat_interval = 0, FLAGS_election_interval = 0,
     FLAGS_log_level = ''info'', FLAGS_host_path = ''./host''\<rparr>"

definition server_CheckFlags :: "server_flags \<Rightarrow> unit outcome" where
  "server_CheckFlags f =
     (if FLAGS_host_id f = 0 then fatal ''should input host id''
      else if FLAGS_peer_id f = 0 then fatal ''should input peer id''
      else if FLAGS_ip f = [] then fatal ''should input ip''
      else if FLAGS_port f < 1024 \<or> FLAGS_port f > 65535 then fatal ''should input correct port''
      else if FLAGS_members f = [] then fatal ''should input members''
      else if FLAGS_log_level f = [] then fatal ''should input log level''
      else if FLAGS_host_path f = [] then fatal ''should input host path''
      else Inr ())"

section \<open>main\<close>

datatype service = RaftMsgServiceImpl | KvServiceImpl

record ('rn, 'db, 'ms) running =
  listen_addr :: SockAddress
  services :: "service list"
  host :: "('rn, 'db, 'ms) server"

definition server_host_option :: "worker_ptr \<Rightarrow> 'ms \<Rightarrow> server_flags \<Rightarrow> 'ms PeerHostOption" where
  "server_host_option w ms f = default_PeerHostOption\<lparr>ho_host_id := FLAGS_host_id f,
     ho_db_path := FLAGS_host_path f @ ''_'' @ to_string (FLAGS_host_id f), ho_worker := w, ho_storage := Some ms\<rparr>"

definition server_peer_option :: "worker_ptr \<Rightarrow> 'ms \<Rightarrow> server_flags \<Rightarrow> 'ms PeerOption" where
  "server_peer_option w ms f = default_PeerOption\<lparr>po_host_id := FLAGS_host_id f, po_peer_id := FLAGS_peer_id f,
     po_ip := FLAGS_ip f, po_port := ucast (FLAGS_port f), po_worker := w, po_members := FLAGS_members f,
     po_storage := Some ms\<rparr>"

text \<open>The host before its peer is added: no task queued, no timer started.\<close>

definition server_boot :: "replies \<Rightarrow> 'ms PeerHostOption \<Rightarrow> ('rn, 'db, 'ms) server" where
  "server_boot rs opt = PeerHost.extend (new_PeerHost rs opt) \<lparr>loop_tasks = [], timers = []\<rparr>"

definition server_main :: "('rn, 'ms) jraft \<Rightarrow> 'db leveldb \<Rightarrow> (char \<Rightarrow> string \<Rightarrow> string list)
    \<Rightarrow> filesystem \<Rightarrow> (member_table \<Rightarrow> member_table) \<Rightarrow> worker_ptr \<Rightarrow> 'ms \<Rightarrow> replies
    \<Rightarrow> server_flags \<Rightarrow> ('rn, 'db, 'ms) running outcome" where
  "server_main jr ldb split fs iter w ms rs f =
     obind (server_CheckFlags f) (\<lambda>_.
       let addr = \<lparr>sa_ip = FLAGS_ip f, sa_port = ucast (FLAGS_port f)\<rparr>;
           s = server_boot rs (server_host_option w ms f)
       in obind (AddLocalPeer jr ldb split fs iter (server_peer_option w ms f) s) (\<lambda>s1.
            case mutable_local_peers (FLAGS_peer_id f) s1 of
              None \<Rightarrow> undefined_behaviour ''null peer dereferenced''
            | Some p \<Rightarrow> Inr \<lparr>listen_addr = addr, services = [RaftMsgServiceImpl, KvServiceImpl],
                            host = StartTimer (FLAGS_peer_id f) s1\<rparr>))"

section \<open>Lemmas\<close>

definition flags_ok :: "server_flags \<Rightarrow> bool" where
  "flags_ok f \<longleftrightarrow> FLAGS_host_id f \<noteq> 0 \<and> FLAGS_peer_id f \<noteq> 0 \<and> FLAGS_ip f \<noteq> []
     \<and> 1024 \<le> unat (FLAGS_port f) \<and> unat (FLAGS_port f) < 2 ^ 16 \<and> FLAGS_members f \<noteq> []
     \<and> FLAGS_log_level f \<noteq> [] \<and> FLAGS_host_path f \<noteq> []"

definition server_dir :: "server_flags \<Rightarrow> string" where
  "server_dir f = peer_dir (FLAGS_host_path f @ ''_'' @ to_string (FLAGS_host_id f)) (FLAGS_peer_id f)"

lemma server_CheckFlags_iff: "server_CheckFlags f = Inr () \<longleftrightarrow> flags_ok f"
  by (auto simp: server_CheckFlags_def flags_ok_def word_less_nat_alt)

lemma ucast_port:
  assumes "unat (x :: u32) < 2 ^ 16"
  shows "unat (ucast x :: u16) = unat x"
  using assms by (simp add: unsigned_ucast_eq take_bit_nat_eq_self)

lemma server_boot_simps [simp]:
  "local_peers (server_boot rs opt) = Map.empty" "host_opt (server_boot rs opt) = opt"
  "runs (server_boot rs opt) = runs rs" "sent (server_boot rs opt) = []" "loop_tasks (server_boot rs opt) = []"
  "timers (server_boot rs opt) = []" "live_objs (server_boot rs opt) = {}" "awaiting (server_boot rs opt) = []"
  by (simp_all add: server_boot_def new_PeerHost_def PeerHost.defs)

lemma server_main_Inr:
  assumes "server_main jr ldb split fs iter w ms rs f = Inr r"
  obtains p where "flags_ok f"
    and "new_Peer jr ldb split fs iter (server_peer_option w ms f)
          (FLAGS_host_path f @ ''_'' @ to_string (FLAGS_host_id f)) = Inr p"
    and "r = \<lparr>listen_addr = \<lparr>sa_ip = FLAGS_ip f, sa_port = ucast (FLAGS_port f)\<rparr>,
          services = [RaftMsgServiceImpl, KvServiceImpl],
          host = StartTimer (FLAGS_peer_id f)
            (server_boot rs (server_host_option w ms f)\<lparr>local_peers := [FLAGS_peer_id f \<mapsto> p]\<rparr>)\<rparr>"
proof -
  let ?s = "server_boot rs (server_host_option w ms f)"
  obtain s1 where f: "flags_ok f"
    and a: "AddLocalPeer jr ldb split fs iter (server_peer_option w ms f) ?s = Inr s1"
    and r: "r = \<lparr>listen_addr = \<lparr>sa_ip = FLAGS_ip f, sa_port = ucast (FLAGS_port f)\<rparr>,
          services = [RaftMsgServiceImpl, KvServiceImpl], host = StartTimer (FLAGS_peer_id f) s1\<rparr>"
    using assms by (auto simp: server_main_def Let_def server_CheckFlags_iff split: option.splits)
  from a obtain p where "new_Peer jr ldb split fs iter (server_peer_option w ms f)
      (FLAGS_host_path f @ ''_'' @ to_string (FLAGS_host_id f)) = Inr p"
    "s1 = ?s\<lparr>local_peers := [FLAGS_peer_id f \<mapsto> p]\<rparr>"
    by (rule AddLocalPeer_Inr)
      (simp_all add: server_peer_option_def server_host_option_def host_db_path_def)
  with that [OF f] r show thesis
    by simp
qed

lemma to_string_no_slash: "CHR ''/'' \<notin> set (to_string i)"
  using to_dec_digits by (fastforce simp: to_string_def is_digit_def)

lemma slash_after_digits:
  assumes "to_string h @ CHR ''/'' # x = to_string h' @ CHR ''/'' # x'"
  shows "h = h' \<and> x = x'"
  using sep_append_eq [OF to_string_no_slash to_string_no_slash assms] to_string_inj by blast

section \<open>Properties\<close>

text \<open>
  C34: a server whose \<^verbatim>\<open>main\<close> gets past its checks starts in order. It listens on the port
  of the flag without truncation, serves both services, holds exactly one local peer, under the
  identifier of the flag, with its timer started, and satisfies the conditions from which the
  guarantees on running servers are proved. Otherwise it stops with \<^verbatim>\<open>JLOG_FATAL\<close>, or
  with a fault of parsing the member string or of a library: the configuration check or the node
  constructor of the Raft library, or the file system at the directory of the peer; it never
  dereferences the null peer.
\<close>

theorem server_main_starts:
  assumes "runs rs = []"
  shows "case server_main jr ldb split fs iter w ms rs f of
      Inl e \<Rightarrow> (\<exists>m. e = Fatal m) \<or> cfg_Validate jr (peer_config (FLAGS_host_id f)) = Inl e
        \<or> InitGroupMembers split (FLAGS_members f) [] = Inl e
        \<or> (\<exists>c ms'. cfg_Validate jr (peer_config (FLAGS_host_id f)) = Inr c \<and> rn_new jr c ms' = Inl e)
        \<or> fs_exists fs (server_dir f) = Inl e \<or> fs_create_directories fs (server_dir f) = Inl e
    | Inr r \<Rightarrow> server_start (host r) \<and> host_id (host r) = FLAGS_host_id f
        \<and> dom (local_peers (host r)) = {FLAGS_peer_id f} \<and> timers (host r) = [FLAGS_peer_id f]
        \<and> unat (sa_port (listen_addr r)) = unat (FLAGS_port f)
        \<and> set (services r) = {RaftMsgServiceImpl, KvServiceImpl}"
proof (cases "server_main jr ldb split fs iter w ms rs f")
  case (Inl e)
  then have "(\<exists>m. e = Fatal m) \<or> cfg_Validate jr (peer_config (FLAGS_host_id f)) = Inl e
        \<or> InitGroupMembers split (FLAGS_members f) [] = Inl e
        \<or> (\<exists>c ms'. cfg_Validate jr (peer_config (FLAGS_host_id f)) = Inr c \<and> rn_new jr c ms' = Inl e)
        \<or> fs_exists fs (server_dir f) = Inl e \<or> fs_create_directories fs (server_dir f) = Inl e"
    by (auto simp: server_main_def server_CheckFlags_def AddLocalPeer_def CheckPeerOption_def new_Peer_def
        new_DiskStorage_def server_peer_option_def server_host_option_def server_dir_def peer_dir_def host_db_path_def
        Let_def obind_def mutable_local_peers_def
        split: sum.splits if_splits option.splits prod.splits Status.splits)
  with Inl show ?thesis
    by simp
next
  case (Inr r)
  then obtain p where p: "flags_ok f"
    "new_Peer jr ldb split fs iter (server_peer_option w ms f)
       (FLAGS_host_path f @ ''_'' @ to_string (FLAGS_host_id f)) = Inr p"
    and r: "r = \<lparr>listen_addr = \<lparr>sa_ip = FLAGS_ip f, sa_port = ucast (FLAGS_port f)\<rparr>,
          services = [RaftMsgServiceImpl, KvServiceImpl],
          host = StartTimer (FLAGS_peer_id f)
            (server_boot rs (server_host_option w ms f)\<lparr>local_peers := [FLAGS_peer_id f \<mapsto> p]\<rparr>)\<rparr>"
    by (rule server_main_Inr)
  have "server_start (host r)"
    using p(1) assms new_Peer_state [OF p(2)]
    by (simp add: r StartTimer_def server_start_def host_ok_def local_peer_ok_def host_id_def host_db_path_def
        server_host_option_def server_peer_option_def flags_ok_def)
  with p(1) Inr show ?thesis
    by (simp add: r StartTimer_def host_id_def server_host_option_def flags_ok_def ucast_port)
qed

definition demo_flags :: "u64 \<Rightarrow> server_flags" where
  "demo_flags h = default_server_flags\<lparr>FLAGS_host_id := h, FLAGS_peer_id := 1, FLAGS_port := 10000,
     FLAGS_members := ''1,1,a,10|2,1,b,20''\<rparr>"

lemma demo_main:
  assumes "h \<noteq> 0"
  obtains r where "server_main solo_raft mem_leveldb ref_split demo_fs id 0 empty_snapshot demo_replies
     (demo_flags h) = Inr r"
proof -
  have "InitGroupMembers ref_split ''1,1,a,10|2,1,b,20'' [] =
      Inr [(1, \<lparr>gm_host_id = 1, gm_peer_id = 1, gm_ip = ''a'', gm_port = 10\<rparr>),
        (2, \<lparr>gm_host_id = 2, gm_peer_id = 1, gm_ip = ''b'', gm_port = 20\<rparr>)]"
    by (simp add: InitGroupMembers_def InitGroupMember_def atoi_def atoi_sign_def is_space_def
        is_digit_def digit_val_def)
  then show ?thesis
    using assms that
    by (simp add: server_main_def server_CheckFlags_def demo_flags_def default_server_flags_def AddLocalPeer_def
        CheckPeerOption_def server_peer_option_def server_host_option_def new_Peer_def new_DiskStorage_def
        demo_fs_def mem_leveldb_def solo_raft_def mutable_local_peers_def host_db_path_def)
qed

theorem server_main_starts_witness:
  "\<exists>r. server_main solo_raft mem_leveldb ref_split demo_fs id 0 empty_snapshot demo_replies (demo_flags 1)
     = Inr r \<and> server_start (host r) \<and> timers (host r) = [1] \<and> unat (sa_port (listen_addr r)) = 10000"
proof -
  have runs: "runs demo_replies = []" and f: "FLAGS_peer_id (demo_flags 1) = 1" "FLAGS_port (demo_flags 1) = 10000"
    by (simp_all add: demo_replies_def demo_flags_def)
  obtain r where "server_main solo_raft mem_leveldb ref_split demo_fs id 0 empty_snapshot demo_replies
     (demo_flags 1) = Inr r"
    by (rule demo_main [of 1]) simp_all
  with server_main_starts [OF runs, where jr = solo_raft and ldb = mem_leveldb and split = ref_split
      and fs = demo_fs and iter = id and w = 0 and ms = empty_snapshot and f = "demo_flags 1"]
  show ?thesis
    by (simp add: f)
qed

text \<open>
  C35: servers that share a \<^verbatim>\<open>--host_path\<close> do not share a database. If two started servers
  were given the same path but differ in the host or the peer identifier, their peers have
  different database directories.
\<close>

theorem server_directories_disjoint:
  assumes "server_main jr ldb split fs iter w ms rs f = Inr r"
    and "server_main jr' ldb' split' fs' iter' w' ms' rs' f' = Inr r'"
    and "FLAGS_host_path f = FLAGS_host_path f'"
    and "local_peers (host r) i = Some p" and "local_peers (host r') i' = Some p'"
    and "FLAGS_host_id f \<noteq> FLAGS_host_id f' \<or> FLAGS_peer_id f \<noteq> FLAGS_peer_id f'"
  shows "db_path (kv_db p) \<noteq> db_path (kv_db p')"
proof
  assume eq: "db_path (kv_db p) = db_path (kv_db p')"
  have dir: "db_path (kv_db q) = FLAGS_host_path g @ CHR ''_'' # to_string (FLAGS_host_id g)
      @ CHR ''/'' # ''peer_'' @ to_string (FLAGS_peer_id g)"
    if m: "server_main jr ldb split fs iter w ms rs g = Inr r" and q: "local_peers (host r) i = Some q"
    for jr :: "('x, 'y) jraft" and ldb :: "'z leveldb" and split fs iter w ms rs g r i q
  proof -
    from m obtain p where p: "new_Peer jr ldb split fs iter (server_peer_option w ms g)
       (FLAGS_host_path g @ ''_'' @ to_string (FLAGS_host_id g)) = Inr p"
      and r: "local_peers (host r) = [FLAGS_peer_id g \<mapsto> p]"
      by (rule server_main_Inr) (simp add: StartTimer_def)
    have "p = q"
      using q by (auto simp: r split: if_splits)
    with new_Peer_state(5) [OF p] show ?thesis
      by (simp add: peer_dir_def server_peer_option_def)
  qed
  have "to_string (FLAGS_host_id f) @ CHR ''/'' # ''peer_'' @ to_string (FLAGS_peer_id f) =
      to_string (FLAGS_host_id f') @ CHR ''/'' # ''peer_'' @ to_string (FLAGS_peer_id f')"
    using dir [OF assms(1,4)] dir [OF assms(2,5)] assms(3) eq by simp
  from slash_after_digits [OF this] assms(6) show False
    by simp
qed

theorem server_directories_disjoint_witness:
  "\<exists>r r' p p'. server_main solo_raft mem_leveldb ref_split demo_fs id 0 empty_snapshot demo_replies (demo_flags 1) = Inr r
     \<and> server_main solo_raft mem_leveldb ref_split demo_fs id 0 empty_snapshot demo_replies (demo_flags 2) = Inr r'
     \<and> local_peers (host r) 1 = Some p \<and> local_peers (host r') 1 = Some p'
     \<and> db_path (kv_db p) \<noteq> db_path (kv_db p')"
proof -
  obtain r where r: "server_main solo_raft mem_leveldb ref_split demo_fs id 0 empty_snapshot demo_replies
     (demo_flags 1) = Inr r"
    by (rule demo_main [of 1]) simp_all
  obtain r' where r': "server_main solo_raft mem_leveldb ref_split demo_fs id 0 empty_snapshot demo_replies
     (demo_flags 2) = Inr r'"
    by (rule demo_main [of 2]) simp_all
  have f: "FLAGS_host_path (demo_flags 1) = FLAGS_host_path (demo_flags 2)"
    "FLAGS_peer_id (demo_flags h) = 1" "FLAGS_host_id (demo_flags h) = h" for h
    by (simp_all add: demo_flags_def)
  obtain p where p: "local_peers (host r) 1 = Some p"
    using r by (rule server_main_Inr) (simp add: StartTimer_def f)
  obtain p' where p': "local_peers (host r') 1 = Some p'"
    using r' by (rule server_main_Inr) (simp add: StartTimer_def f)
  from server_directories_disjoint [OF r r' f(1) p p'] have "db_path (kv_db p) \<noteq> db_path (kv_db p')"
    by (simp add: f)
  with r r' p p' show ?thesis
    by blast
qed

end
