(* ===== verification/Rpc_Controller.thy ===== *)
theory Rpc_Controller
  imports Jkv_Prelude
begin

text \<open>
  \<^verbatim>\<open>jrpc::RpcController\<close> and \<^verbatim>\<open>jrpc::AttachmentEntry\<close> (net/rpc/rpc\_controller.h), as
  far as the header defines them: the accessors and the attachment lists with their running sizes,
  over the members these methods use, with their defaults. Methods that are declared only (\<^verbatim>\<open>Reset\<close>,
  \<^verbatim>\<open>SetFailed\<close>, \<^verbatim>\<open>CallDone\<close>, timers and memory) are not modelled: who calls a
  callback decides what its controller reports.
\<close>

section \<open>Attachments\<close>

type_synonym address = u64

record AttachmentEntry =
  att_ptr :: address
  att_size :: u32
  cntl_hold :: bool
  lkey :: u32
  rkey :: u32
  has_mr_key :: bool

definition new_AttachmentEntry :: "address \<Rightarrow> u32 \<Rightarrow> AttachmentEntry" where
  "new_AttachmentEntry p n = \<lparr>att_ptr = p, att_size = n, cntl_hold = False, lkey = 0, rkey = 0, has_mr_key = False\<rparr>"

text \<open>The constructor that copies an entry and narrows it; nothing bounds the part by the whole.\<close>

definition sub_AttachmentEntry :: "AttachmentEntry \<Rightarrow> u32 \<Rightarrow> u32 \<Rightarrow> AttachmentEntry" where
  "sub_AttachmentEntry e off n = e\<lparr>att_ptr := att_ptr e + ucast off, att_size := n\<rparr>"

definition SetMrKey :: "u32 \<Rightarrow> u32 \<Rightarrow> AttachmentEntry \<Rightarrow> AttachmentEntry" where
  "SetMrKey lk rk e = e\<lparr>lkey := lk, rkey := rk, has_mr_key := True\<rparr>"

text \<open>The return code, and what it stores through the two pointers when it stores anything.\<close>

definition GetMrKey :: "AttachmentEntry \<Rightarrow> int \<times> (u32 \<times> u32) option" where
  "GetMrKey e = (if has_mr_key e then (0, Some (lkey e, rkey e)) else (- 1, None))"

definition set_cntl_hold :: "bool \<Rightarrow> AttachmentEntry \<Rightarrow> AttachmentEntry" where
  "set_cntl_hold h e = e\<lparr>cntl_hold := h\<rparr>"

section \<open>The controller\<close>

record RpcController =
  request_attachment_vec :: "AttachmentEntry list"
  request_attachment_size :: u64
  response_attachment_vec :: "AttachmentEntry list"
  response_attachment_size :: u64
  seq_no :: u64
  timer_cnt :: u32
  cntl_failed :: bool
  cntl_error_text :: string
  user_ctx :: u64

definition default_RpcController :: RpcController where
  "default_RpcController = \<lparr>request_attachment_vec = [], request_attachment_size = 0,
     response_attachment_vec = [], response_attachment_size = 0, seq_no = 0, timer_cnt = 3000,
     cntl_failed = False, cntl_error_text = [], user_ctx = 0\<rparr>"

definition AddRequestAttachment :: "AttachmentEntry \<Rightarrow> bool \<Rightarrow> RpcController \<Rightarrow> RpcController" where
  "AddRequestAttachment e hold c =
     c\<lparr>request_attachment_vec := request_attachment_vec c @ [set_cntl_hold hold e],
       request_attachment_size := request_attachment_size c + ucast (att_size e)\<rparr>"

definition AddResponseAttachment :: "AttachmentEntry \<Rightarrow> bool \<Rightarrow> RpcController \<Rightarrow> RpcController" where
  "AddResponseAttachment e hold c =
     c\<lparr>response_attachment_vec := response_attachment_vec c @ [set_cntl_hold hold e],
       response_attachment_size := response_attachment_size c + ucast (att_size e)\<rparr>"

definition Failed :: "RpcController \<Rightarrow> bool" where
  "Failed c = cntl_failed c"

definition ErrorText :: "RpcController \<Rightarrow> string" where
  "ErrorText c = cntl_error_text c"

definition set_user_ctx :: "u64 \<Rightarrow> RpcController \<Rightarrow> RpcController" where
  "set_user_ctx x c = c\<lparr>user_ctx := x\<rparr>"

definition set_timer_cnt :: "u32 \<Rightarrow> RpcController \<Rightarrow> RpcController" where
  "set_timer_cnt n c = c\<lparr>timer_cnt := n\<rparr>"

section \<open>The interface of an attachment list\<close>

text \<open>
  Both lists obey one law: adding an entry appends it, marked as held or not, and adds its size to
  the running size.
\<close>

locale attachment_list =
  fixes add :: "AttachmentEntry \<Rightarrow> bool \<Rightarrow> 'c \<Rightarrow> 'c"
    and entries :: "'c \<Rightarrow> AttachmentEntry list"
    and total :: "'c \<Rightarrow> u64"
  assumes add_entries: "entries (add e h c) = entries c @ [set_cntl_hold h e]"
    and add_total: "total (add e h c) = total c + ucast (att_size e)"
begin

definition add_all :: "(AttachmentEntry \<times> bool) list \<Rightarrow> 'c \<Rightarrow> 'c" where
  "add_all es c = fold (\<lambda>(e, h). add e h) es c"

lemma add_all_entries: "entries (add_all es c) = entries c @ map (\<lambda>(e, h). set_cntl_hold h e) es"
  unfolding add_all_def by (induction es arbitrary: c) (auto simp: add_entries)

lemma add_all_total: "total (add_all es c) = total c + (\<Sum>x\<leftarrow>es. ucast (att_size (fst x)))"
  unfolding add_all_def by (induction es arbitrary: c) (auto simp: add_total algebra_simps)

end

interpretation requests: attachment_list AddRequestAttachment request_attachment_vec request_attachment_size
  by unfold_locales (simp_all add: AddRequestAttachment_def)

interpretation responses: attachment_list AddResponseAttachment response_attachment_vec response_attachment_size
  by unfold_locales (simp_all add: AddResponseAttachment_def)

text \<open>32-bit sizes add up without wrap-around in 64 bits as long as there are fewer than \<open>2 ^ 32\<close> of them.\<close>

lemma unat_u32_sum:
  fixes ns :: "u32 list"
  assumes "length ns < 2 ^ 32"
  shows "unat (\<Sum>n\<leftarrow>ns. ucast n :: u64) = (\<Sum>n\<leftarrow>ns. unat n)"
proof -
  have le: "(\<Sum>n\<leftarrow>xs. unat n) \<le> length xs * (2 ^ 32 - 1)" for xs :: "u32 list"
  proof (induction xs)
    case (Cons n xs)
    have "unat n < 2 ^ 32"
      using unsigned_less [of n] by simp
    with Cons show ?case
      by simp
  qed simp
  have "unat (\<Sum>n\<leftarrow>xs. ucast n :: u64) = (\<Sum>n\<leftarrow>xs. unat n)" if "length xs < 2 ^ 32" for xs :: "u32 list"
    using that
  proof (induction xs)
    case (Cons n xs)
    have "(\<Sum>m\<leftarrow>n # xs. unat m) < 2 ^ 64"
    proof -
      have "(\<Sum>m\<leftarrow>n # xs. unat m) \<le> length (n # xs) * (2 ^ 32 - 1)"
        by (rule le)
      also have "\<dots> \<le> (2 ^ 32 - 1) * (2 ^ 32 - 1)"
        using Cons.prems by (intro mult_le_mono1) simp
      also have "\<dots> < (2 ^ 64 :: nat)"
        by simp
      finally show ?thesis .
    qed
    moreover have "unat (ucast n :: u64) = unat n"
      by (simp add: unsigned_ucast_eq take_bit_nat_eq_self_iff less_trans [OF unsigned_less])
    ultimately show ?case
      using Cons by (simp add: unat_add_lem [THEN iffD1])
  qed simp
  then show ?thesis
    using assms .
qed

section \<open>Properties\<close>

text \<open>
  The running sizes of a controller are exact. Whatever attachments are added to a new
  controller, fewer than \<open>2 ^ 32\<close> of them, the reported request size is the sum of their sizes as
  unbounded numbers: the 64-bit counter does not wrap; the list holds them in order with the given
  marks.
\<close>

theorem attachment_sizes_exact:
  assumes "length es < 2 ^ 32" and "c = fold (\<lambda>(e, h). AddRequestAttachment e h) es default_RpcController"
  shows "unat (request_attachment_size c) = (\<Sum>e\<leftarrow>request_attachment_vec c. unat (att_size e))
    \<and> request_attachment_vec c = map (\<lambda>(e, h). set_cntl_hold h e) es"
proof -
  have c: "c = requests.add_all es default_RpcController"
    by (simp add: assms(2) requests.add_all_def)
  have vec: "request_attachment_vec c = map (\<lambda>(e, h). set_cntl_hold h e) es"
    by (simp add: c requests.add_all_entries default_RpcController_def)
  have "request_attachment_size c = (\<Sum>n\<leftarrow>map (att_size \<circ> fst) es. ucast n)"
    by (simp add: c requests.add_all_total default_RpcController_def comp_def)
  moreover have "unat (\<Sum>n\<leftarrow>map (att_size \<circ> fst) es. ucast n :: u64) = (\<Sum>n\<leftarrow>map (att_size \<circ> fst) es. unat n)"
    using assms(1) by (intro unat_u32_sum) simp
  ultimately show ?thesis
    by (simp add: vec comp_def case_prod_beta set_cntl_hold_def)
qed

theorem attachment_sizes_exact_witness:
  "unat (request_attachment_size (AddRequestAttachment (new_AttachmentEntry 8 4294967295) False
     (AddRequestAttachment (new_AttachmentEntry 0 4294967295) True default_RpcController))) = 2 * (2 ^ 32 - 1)"
  using attachment_sizes_exact [of "[(new_AttachmentEntry 0 4294967295, True), (new_AttachmentEntry 8 4294967295, False)]", OF _ refl]
  by (simp add: AddRequestAttachment_def new_AttachmentEntry_def set_cntl_hold_def default_RpcController_def)

end
