(* ===== verification/Echo_Client.thy ===== *)
theory Echo_Client
  imports Services Rpc_Controller
begin

text \<open>
  The command line client (example/echo/client): flags, their check, the class
  \<^verbatim>\<open>KvClient\<close> with its three requests and their callbacks, and the dispatch in
  \<^verbatim>\<open>main\<close>. A request consists of the RPC client it goes through, the message, and the
  callback bound to its response; opening the connection is library code and its result the
  parameter \<open>connect\<close>.
\<close>

section \<open>Flags\<close>

record client_flags =
  CFLAGS_ip :: string
  CFLAGS_port :: u32
  CFLAGS_op_type :: string
  CFLAGS_key :: bytes
  CFLAGS_val :: bytes
  CFLAGS_log_level :: string

definition default_client_flags :: client_flags where
  "default_client_flags = \<lparr>CFLAGS_ip = ''127.0.0.1'', CFLAGS_port = 0, CFLAGS_op_type = [], CFLAGS_key = [],
     CFLAGS_val = [], CFLAGS_log_level = ''debug''\<rparr>"

definition client_CheckFlags :: "client_flags \<Rightarrow> unit outcome" where
  "client_CheckFlags f =
     (if CFLAGS_port f < 1024 \<or> CFLAGS_port f > 65535 then fatal ''should input correct port''
      else if CFLAGS_op_type f = [] then fatal ''should input op type''
      else if CFLAGS_key f = [] then fatal ''should input key''
      else Inr ())"

section \<open>KvClient\<close>

record KvClient =
  kc_worker :: worker_ptr
  kc_client :: RpcClient

definition new_KvClient :: "(RpcClient \<Rightarrow> int) \<Rightarrow> string \<Rightarrow> u16 \<Rightarrow> worker_ptr \<Rightarrow> KvClient outcome" where
  "new_KvClient connect ip port w =
     (let addr = \<lparr>sa_ip = ip, sa_port = port\<rparr>;
          client = set_rpc_depth 10000 (set_timeout_ms 300 (new_RpcClient kTcp w addr []))
      in if connect client \<noteq> 0 then fatal ''failed to connect''
         else Inr \<lparr>kc_worker = w, kc_client = client\<rparr>)"

text \<open>The callbacks that \<^verbatim>\<open>NewCallback\<close> binds.\<close>

datatype callback = Bound_GetCb | Bound_PutCb | Bound_DelCb

definition KvClient_Get :: "bytes \<Rightarrow> KvClient \<Rightarrow> RpcClient \<times> KvReq \<times> callback" where
  "KvClient_Get key c =
     (let req = default_KvReq\<lparr>cmd_type := kGet\<rparr>;
          req = req\<lparr>get_req_opt := Some ((get_req req)\<lparr>get_key := key\<rparr>)\<rparr>
      in (kc_client c, req, Bound_GetCb))"

definition KvClient_Put :: "bytes \<Rightarrow> bytes \<Rightarrow> KvClient \<Rightarrow> RpcClient \<times> KvReq \<times> callback" where
  "KvClient_Put key val c =
     (let req = default_KvReq\<lparr>cmd_type := kPut\<rparr>;
          req = req\<lparr>put_req_opt := Some ((put_req req)\<lparr>put_key := key\<rparr>)\<rparr>;
          req = req\<lparr>put_req_opt := Some ((put_req req)\<lparr>put_value := val\<rparr>)\<rparr>
      in (kc_client c, req, Bound_PutCb))"

definition KvClient_Del :: "bytes \<Rightarrow> KvClient \<Rightarrow> RpcClient \<times> KvReq \<times> callback" where
  "KvClient_Del key c =
     (let req = default_KvReq\<lparr>cmd_type := kDel\<rparr>;
          req = req\<lparr>del_req_opt := Some ((del_req req)\<lparr>del_key := key\<rparr>)\<rparr>
      in (kc_client c, req, Bound_DelCb))"

text \<open>
  The callbacks, given the controller and the response of the finished call; the result is the exit
  status of the process, or the \<^verbatim>\<open>JLOG_FATAL\<close> that ends it. The two objects are never
  deleted: \<^verbatim>\<open>::exit\<close> does not run the destructors of the guards. The \<^verbatim>\<open>KvClient\<close>
  they are bound to is gone when they run (\<^verbatim>\<open>main\<close> holds it in a local of the lambda); they
  read none of its members.
\<close>

definition GetCb :: "RpcController \<Rightarrow> KvResp \<Rightarrow> int outcome" where
  "GetCb cntl resp =
     (if Failed cntl then fatal (''get kv rpc failed, error text: '' @ ErrorText cntl)
      else if rejected resp then fatal ''server rejected get request''
      else Inr 0)"

definition PutCb :: "RpcController \<Rightarrow> KvResp \<Rightarrow> int outcome" where
  "PutCb cntl resp =
     (if Failed cntl then fatal (''put kv rpc failed, error text: '' @ ErrorText cntl)
      else if rejected resp then fatal ''server rejected put request''
      else Inr 0)"

definition DelCb :: "RpcController \<Rightarrow> KvResp \<Rightarrow> int outcome" where
  "DelCb cntl resp =
     (if Failed cntl then fatal (''del kv rpc failed, error text: '' @ ErrorText cntl)
      else if rejected resp then fatal ''server rejected del request''
      else Inr 0)"

definition run_callback :: "callback \<Rightarrow> RpcController \<Rightarrow> KvResp \<Rightarrow> int outcome" where
  "run_callback cb = (case cb of Bound_GetCb \<Rightarrow> GetCb | Bound_PutCb \<Rightarrow> PutCb | Bound_DelCb \<Rightarrow> DelCb)"

section \<open>main\<close>

definition client_main :: "(RpcClient \<Rightarrow> int) \<Rightarrow> worker_ptr \<Rightarrow> client_flags \<Rightarrow> (RpcClient \<times> KvReq \<times> callback) outcome" where
  "client_main connect w f =
     obind (client_CheckFlags f) (\<lambda>_.
     obind (new_KvClient connect (CFLAGS_ip f) (ucast (CFLAGS_port f)) w) (\<lambda>client.
       let type = CFLAGS_op_type f
       in if type = ''get'' then Inr (KvClient_Get (CFLAGS_key f) client)
          else if type = ''put'' then Inr (KvClient_Put (CFLAGS_key f) (CFLAGS_val f) client)
          else if type = ''del'' then Inr (KvClient_Del (CFLAGS_key f) client)
          else fatal ''invalid type''))"

section \<open>Lemmas\<close>

text \<open>The store operation a command line asks for.\<close>

definition asked_op :: "client_flags \<Rightarrow> store_op option" where
  "asked_op f =
     (if CFLAGS_op_type f = ''get'' then Some (SGet (CFLAGS_key f))
      else if CFLAGS_op_type f = ''put'' then Some (SPut (CFLAGS_key f) (CFLAGS_val f))
      else if CFLAGS_op_type f = ''del'' then Some (SDel (CFLAGS_key f))
      else None)"

definition op_request :: "store_op \<Rightarrow> KvReq" where
  "op_request c = (case c of SGet k \<Rightarrow> mk_get k | SPut k v \<Rightarrow> mk_put k v | SDel k \<Rightarrow> mk_del k)"

definition op_callback :: "store_op \<Rightarrow> callback" where
  "op_callback c = (case c of SGet k \<Rightarrow> Bound_GetCb | SPut k v \<Rightarrow> Bound_PutCb | SDel k \<Rightarrow> Bound_DelCb)"

definition op_name :: "store_op \<Rightarrow> string" where
  "op_name c = (case c of SGet k \<Rightarrow> ''get'' | SPut k v \<Rightarrow> ''put'' | SDel k \<Rightarrow> ''del'')"

lemma KvClient_requests:
  "KvClient_Get k c = (kc_client c, mk_get k, Bound_GetCb)"
  "KvClient_Put k v c = (kc_client c, mk_put k v, Bound_PutCb)"
  "KvClient_Del k c = (kc_client c, mk_del k, Bound_DelCb)"
  by (simp_all add: KvClient_Get_def KvClient_Put_def KvClient_Del_def mk_get_def mk_put_def mk_del_def
      get_req_def put_req_def del_req_def default_KvReq_def Let_def)

lemma client_main_Inr:
  assumes "client_main connect w f = Inr (cl, req, cb)"
  obtains c where "asked_op f = Some c" and "req = op_request c" and "cb = op_callback c"
    and "1024 \<le> unat (CFLAGS_port f)" and "unat (CFLAGS_port f) < 2 ^ 16" and "CFLAGS_key f \<noteq> []"
    and "cli_addr cl = \<lparr>sa_ip = CFLAGS_ip f, sa_port = ucast (CFLAGS_port f)\<rparr>" and "connect cl = 0"
  using assms
  by (auto simp: client_main_def client_CheckFlags_def new_KvClient_def asked_op_def op_request_def op_callback_def
      KvClient_requests Let_def word_less_nat_alt set_rpc_depth_def set_timeout_ms_def new_RpcClient_def
      split: if_splits)

text \<open>The process exits with status 0 exactly when the call succeeded and was not rejected.\<close>

lemma run_callback_cases:
  "run_callback (op_callback c) cntl resp =
     (if Failed cntl then fatal (op_name c @ '' kv rpc failed, error text: '' @ ErrorText cntl)
      else if rejected resp then fatal (''server rejected '' @ op_name c @ '' request'') else Inr 0)"
  by (cases c) (simp_all add: op_callback_def op_name_def run_callback_def GetCb_def PutCb_def DelCb_def)

lemma run_callback_iff:
  "run_callback (op_callback c) cntl resp = Inr x \<longleftrightarrow> x = 0 \<and> \<not> Failed cntl \<and> \<not> rejected resp"
  by (auto simp: run_callback_cases)

lemma codec_entry_op:
  assumes "codec_contract pb" and "SerializeToString pb (op_request c) = Some x"
    and "entry_type e = kEntryNormal" and "entry_data e = x"
  shows "entry_op pb e = Some c"
  using assms by (cases c) (auto simp: codec_contract_def entry_op_def op_request_def)

section \<open>Properties\<close>

text \<open>
  C36: the client program runs exactly on the valid command lines. It sends a request if and only if
  the port lies in 1024..65535, the key is not empty, the operation is get, put or del, and the
  connection to exactly the given address and port opens.
\<close>

theorem client_main_returns_iff:
  "(\<exists>r. client_main connect w f = Inr r) \<longleftrightarrow>
     1024 \<le> unat (CFLAGS_port f) \<and> unat (CFLAGS_port f) \<le> 65535 \<and> CFLAGS_key f \<noteq> []
     \<and> CFLAGS_op_type f \<in> {''get'', ''put'', ''del''}
     \<and> connect \<lparr>cli_tp = kTcp, cli_worker = w, cli_addr = \<lparr>sa_ip = CFLAGS_ip f,
          sa_port = of_nat (unat (CFLAGS_port f))\<rparr>, cli_name = [], rpc_depth = 10000, timeout_ms = 300,
          conn_idle_time_s = - 1\<rparr> = 0"
  by (auto simp: client_main_def client_CheckFlags_def new_KvClient_def KvClient_requests Let_def word_less_nat_alt
      set_rpc_depth_def set_timeout_ms_def new_RpcClient_def split: if_splits)

text \<open>
  The request of the client is the operation that the command line asks for. Whatever the client
  sends, once serialised, committed as a normal entry and parsed back by a codec that inverts its
  own output, is exactly the operation named on the command line, with its key and value, and
  changes every store accordingly.
\<close>

theorem client_command_in_log:
  assumes "client_main connect w f = Inr (cl, req, cb)" and "codec_contract pb"
    and "SerializeToString pb req = Some x" and "entry_type e = kEntryNormal" and "entry_data e = x"
  shows "\<exists>c. asked_op f = Some c \<and> entry_op pb e = Some c \<and> (\<forall>m. entry_effect pb e m = op_effect c m)"
proof -
  from assms(1) obtain c where c: "asked_op f = Some c" "req = op_request c"
    by (rule client_main_Inr)
  with codec_entry_op [OF assms(2)] assms(3-5) show ?thesis
    by (auto simp: entry_effect_def)
qed

definition demo_client_flags :: client_flags where
  "demo_client_flags = default_client_flags\<lparr>CFLAGS_port := 10000, CFLAGS_op_type := ''put'',
     CFLAGS_key := ''a'', CFLAGS_val := ''1''\<rparr>"

lemma demo_client_main: "\<exists>cl. client_main (\<lambda>_. 0) 0 demo_client_flags = Inr (cl, mk_put ''a'' ''1'', Bound_PutCb)"
  by (simp add: client_main_def client_CheckFlags_def new_KvClient_def demo_client_flags_def KvClient_requests)

theorem client_command_in_log_witness:
  "entry_op demo_codec (demo_entry 1 1 ''p1,a1'') = Some (SPut ''a'' ''1'')"
proof -
  obtain cl where m: "client_main (\<lambda>_. 0) 0 demo_client_flags = Inr (cl, mk_put ''a'' ''1'', Bound_PutCb)"
    using demo_client_main by blast
  from client_command_in_log [OF m demo_codec_contract, of "''p1,a1''" "demo_entry 1 1 ''p1,a1''"]
  show ?thesis
    by (simp add: demo_codec_def demo_print_put demo_entry_def asked_op_def demo_client_flags_def)
qed

end
