(* ===== verification/Replication.thy ===== *)
theory Replication
  imports Services "HOL-Library.Sublist"
begin

text \<open>
  What a group of servers guarantees together. A peer that restarts opens its database with the
  contents it had and is given the log again from the first entry (\<^verbatim>\<open>c.applied = 0\<close> in the
  constructor): the first part shows that replaying the log from its start is harmless. The second
  part follows the stores through every interleaving of a server and relates the servers of a
  group. What it needs of the Raft library is the hypothesis \<open>raft_delivers\<close>: a node counts the
  entries it has handed out, and within the execution at hand it hands out the entries of one log,
  in order, without gap or repetition.
\<close>

section \<open>Replaying a log over its own effects\<close>

text \<open>What an entry does to one key: nothing, or it writes the key (\<open>Some None\<close> deletes it).\<close>

definition written :: "pb_codec \<Rightarrow> bytes \<Rightarrow> Entry \<Rightarrow> bytes option option" where
  "written pb k e = (case entry_op pb e of
     Some (SPut k' v) \<Rightarrow> if k' = k then Some (Some v) else None
   | Some (SDel k') \<Rightarrow> if k' = k then Some None else None
   | _ \<Rightarrow> None)"

fun last_written :: "pb_codec \<Rightarrow> bytes \<Rightarrow> Entry list \<Rightarrow> bytes option option" where
  "last_written pb k [] = None"
| "last_written pb k (e # es) =
     (case last_written pb k es of None \<Rightarrow> written pb k e | Some w \<Rightarrow> Some w)"

lemma entry_effect_written:
  "entry_effect pb e m k = (case written pb k e of None \<Rightarrow> m k | Some w \<Rightarrow> w)"
  by (auto simp: entry_effect_def written_def split: option.splits store_op.splits)

lemma replay_last_written:
  "replay pb es m k = (case last_written pb k es of None \<Rightarrow> m k | Some w \<Rightarrow> w)"
  by (induction es arbitrary: m) (auto simp: entry_effect_written split: option.splits)

lemma last_written_append:
  "last_written pb k (es @ es') =
     (case last_written pb k es' of None \<Rightarrow> last_written pb k es | Some w \<Rightarrow> Some w)"
  by (induction es) (auto split: option.splits)

lemma replay_over_prefix: "replay pb (es @ es') (replay pb es m) = replay pb (es @ es') m"
proof
  fix k
  show "replay pb (es @ es') (replay pb es m) k = replay pb (es @ es') m k"
    unfolding replay_last_written [of pb "es @ es'"] last_written_append
    by (simp add: replay_last_written split: option.splits)
qed

lemma op_effect_mono: "m \<subseteq>\<^sub>m m' \<Longrightarrow> op_effect c m \<subseteq>\<^sub>m op_effect c m'"
  by (cases c) (auto simp: map_le_def)

lemma entry_effect_mono: "m \<subseteq>\<^sub>m m' \<Longrightarrow> entry_effect pb e m \<subseteq>\<^sub>m entry_effect pb e m'"
  by (auto simp: entry_effect_def intro: op_effect_mono split: option.splits)

lemma entry_legal_mono: "entry_legal pb e m \<Longrightarrow> m \<subseteq>\<^sub>m m' \<Longrightarrow> entry_legal pb e m'"
  by (auto simp: entry_legal_def map_le_def dom_def split: option.splits CmdType.splits)

lemma log_legal_mono: "log_legal pb es m \<Longrightarrow> m \<subseteq>\<^sub>m m' \<Longrightarrow> log_legal pb es m'"
  by (induction es arbitrary: m m') (auto intro: entry_legal_mono dest: entry_effect_mono)

section \<open>The faults of applying a log\<close>

text \<open>Applying entries stops in no other way than at a \<^verbatim>\<open>JLOG_FATAL\<close>.\<close>

lemma ProcessEntry_fatal:
  assumes "ProcessEntry jr ldb pb e st = Inl f"
  shows "\<exists>t. f = Fatal t"
  using assms
  by (auto simp: ProcessEntry_def ProcessNormal_def ProcessConfChange_def DiskStorage_defs obind_def
      split: if_splits option.splits CmdType.splits prod.splits sum.splits Status.splits)

lemma ProcessEntries_fatal:
  assumes "ProcessEntries jr ldb pb es st = Inl f"
  shows "\<exists>t. f = Fatal t"
  using assms unfolding ProcessEntries_def
  by (induction es arbitrary: st) (auto simp: obind_eq_Inl_iff dest: ProcessEntry_fatal)

lemma absent_get_fault:
  assumes "leveldb_contract ldb view" and "entry_op pb e = Some (SGet k)"
    and "disk_contents view (kv_db peer) k = None"
  shows "\<exists>msg. ProcessEntry jr ldb pb e (peer, s) = fatal (''can't get kv from db, err_msg: '' @ msg)"
proof -
  obtain p peer1 s1 where c: "claim_proposal jr e (peer, s) = (p, peer1, s1)"
    by (cases "claim_proposal jr e (peer, s)") auto
  obtain x v where g: "db_Get ldb (db (kv_db peer)) k = (x, v)"
    by fastforce
  with assms(1,3) have "x \<noteq> StatusOk"
    unfolding leveldb_contract_def disk_contents_def by auto
  then obtain msg where "x = StatusErr msg"
    by (cases x) auto
  with g have "DiskStorage_Get ldb (kv_db peer) k = fatal (''can't get kv from db, err_msg: '' @ msg)"
    by (simp add: DiskStorage_Get_def)
  then show ?thesis
    using assms(2) c claim_proposal_frame(2) [OF c]
    by (auto simp: ProcessEntry_def ProcessNormal_def entry_op_def split: if_splits option.splits CmdType.splits)
qed

section \<open>What a step of a server does to one of its peers\<close>

inductive peer_move :: "('rn, 'ms) jraft \<Rightarrow> 'db leveldb \<Rightarrow> pb_codec \<Rightarrow> (RpcClient \<Rightarrow> int)
    \<Rightarrow> Message set \<Rightarrow> ('rn, 'db) Peer \<Rightarrow> ('rn, 'db) Peer \<Rightarrow> bool"
  for jr :: "('rn, 'ms) jraft" and ldb :: "'db leveldb" and pb connect M where
  stays: "peer_move jr ldb pb connect M p p"
| proposes: "IsLeader jr p \<Longrightarrow> ProposeKvOp jr pb req r d p = Inr p' \<Longrightarrow> peer_move jr ldb pb connect M p p'"
| steps: "m \<in> M \<Longrightarrow> Step jr m p = (e, p') \<Longrightarrow> peer_move jr ldb pb connect M p p'"
| ticks: "Tick jr ldb pb connect (p, s :: ('rn, 'db, 'ms) server) = Inr (p', s') \<Longrightarrow> peer_move jr ldb pb connect M p p'"

inductive_cases peer_moveE: "peer_move jr ldb pb connect M p p'"

lemma run_task_moves:
  fixes s :: "('rn, 'db, 'ms) server" and ldb :: "'db leveldb"
  assumes "run_task jr pb t s = Inr s'" and "local_peers s' i = Some p'"
    and "\<And>req d. t = RaftMsgTask req d \<Longrightarrow> raft_msg req \<in> M"
  shows "\<exists>p. local_peers s i = Some p \<and> peer_move jr ldb pb connect M p p'"
proof (cases t)
  case (KvOpTask req r d)
  with assms(1) have "KvOpCb jr pb req r d s = Inr s'"
    by (simp add: run_task_def)
  then show ?thesis
    by (cases rule: KvOpCb_Inr)
      (use assms(2) in \<open>auto split: if_splits intro: peer_move.intros\<close>)
next
  case (RaftMsgTask req d)
  with assms(1) have "HandleRaftMsgCb jr req d s = Inr s'"
    by (simp add: run_task_def)
  then show ?thesis
    by (cases rule: HandleRaftMsgCb_Inr)
      (use assms(2) assms(3) [OF RaftMsgTask] in \<open>auto split: if_splits intro: peer_move.intros\<close>)
qed

text \<open>
  An execution in which the Raft node of every local peer \<open>i\<close> is in \<open>R i\<close> and the Raft messages
  that wait in the event loop are in \<open>M\<close>, and the induction rule for what holds of every local peer
  throughout it.
\<close>

definition visits :: "(PeerId \<Rightarrow> 'rn set) \<Rightarrow> Message set \<Rightarrow> ('rn, 'db, 'ms) server \<Rightarrow> bool" where
  "visits R M s \<longleftrightarrow> (\<forall>i p. local_peers s i = Some p \<longrightarrow> raw_node p \<in> R i)
     \<and> (\<forall>req d. RaftMsgTask req d \<in> set (loop_tasks s) \<longrightarrow> raft_msg req \<in> M)"

lemma server_step_moves:
  assumes "server_step jr ldb pb connect s s'" and "local_peers s' i = Some p'" and "visits R M s"
  shows "\<exists>p. local_peers s i = Some p \<and> peer_move jr ldb pb connect M p p'"
  using assms(1)
proof cases
  case (kv_arrives d req resp)
  then show ?thesis
    using assms(2) by (auto simp: KvOp_def RunInLoop_def intro: stays)
next
  case (raft_arrives d req)
  then show ?thesis
    using assms(2) by (auto simp: HandleRaftMsg_def RunInLoop_def intro: stays split: if_splits)
next
  case (task_runs ts t us)
  then show ?thesis
    using run_task_moves [OF task_runs(2) assms(2), of M ldb connect] assms(3) by (simp add: visits_def)
next
  case (timer_fires j p)
  then obtain q s1 where T: "Tick jr ldb pb connect (p, s) = Inr (q, s1)"
    and s': "s' = s1\<lparr>local_peers := (local_peers s1)(j \<mapsto> q)\<rparr>"
    by (auto simp: with_peer_def)
  have "local_peers s1 = local_peers s"
    using Tick_frame [OF T] by (intro net_more_server) simp
  with assms(2) s' timer_fires(2) T show ?thesis
    by (auto split: if_splits intro: stays ticks)
next
  case (reply_arrives xs cntl resp ys)
  then have "local_peers s' = local_peers s"
    by (auto simp: HandleSendMsg2Peer_def delete_object_def split: if_splits)
  with assms(2) show ?thesis
    by (auto intro: stays)
qed

definition execution :: "('rn, 'ms) jraft \<Rightarrow> 'db leveldb \<Rightarrow> pb_codec \<Rightarrow> (RpcClient \<Rightarrow> int)
    \<Rightarrow> (PeerId \<Rightarrow> 'rn set) \<Rightarrow> Message set \<Rightarrow> ('rn, 'db, 'ms) server \<Rightarrow> ('rn, 'db, 'ms) server \<Rightarrow> bool" where
  "execution jr ldb pb connect R M =
     (\<lambda>s s'. visits R M s \<and> server_step jr ldb pb connect s s')\<^sup>*\<^sup>*"

lemma execution_peers:
  assumes "execution jr ldb pb connect R M s0 s"
    and "\<And>i p. local_peers s0 i = Some p \<Longrightarrow> I i p"
    and "\<And>i p p'. I i p \<Longrightarrow> raw_node p \<in> R i \<Longrightarrow> peer_move jr ldb pb connect M p p' \<Longrightarrow> I i p'"
    and "local_peers s i = Some p"
  shows "I i p"
  using assms(1,4) unfolding execution_def
proof (induction arbitrary: i p rule: rtranclp_induct)
  case (step s s')
  then obtain q where "local_peers s i = Some q" "peer_move jr ldb pb connect M q p"
    using server_step_moves by blast
  with step show ?case
    using assms(3) [of i q p] by (simp add: visits_def)
qed (use assms(2) in blast)

lemma execution_reachable:
  "execution jr ldb pb connect R M s0 s \<Longrightarrow> (server_step jr ldb pb connect)\<^sup>*\<^sup>* s0 s"
  unfolding execution_def by (rule rtranclp_mono [THEN predicate2D, rotated]) auto

text \<open>
  \<^verbatim>\<open>ProposeKvOp\<close> ignores the result of \<^verbatim>\<open>Propose\<close>, and the Raft library may drop a
  proposal (\<^verbatim>\<open>kErrProposalDropped\<close>), for instance when too much is uncommitted; the queue then
  holds a proposal that has no entry. The step is \<open>undropped\<close> if the node appended what was proposed
  in it, if anything was. The guarantees that depend on this are stated for executions of such
  steps; \<open>Peer_Anomalies\<close> shows what happens otherwise.
\<close>

definition undropped :: "('rn, 'ms) jraft \<Rightarrow> ('rn, 'db, 'ms) server \<Rightarrow> ('rn, 'db, 'ms) server \<Rightarrow> bool" where
  "undropped jr s s' \<longleftrightarrow> (\<forall>i p p' q x. local_peers s i = Some p \<and> local_peers s' i = Some p'
     \<and> proposals p' = proposals p @ [q] \<and> raw_node p' = rn_Propose jr (raw_node p) x
     \<longrightarrow> propose_accepted jr (raw_node p) x)"

lemma undroppedD:
  assumes "undropped jr s s'" and "local_peers s i = Some p" and "local_peers s' i = Some p'"
    and "ProposeKvOp jr pb req r d p = Inr p'" and "IsLeader jr p"
  shows "\<exists>x. SerializeToString pb req = Some x \<and> propose_accepted jr (raw_node p) x"
proof -
  obtain x where x: "SerializeToString pb req = Some x"
    using assms(4) by (auto simp: ProposeKvOp_def split: option.splits)
  then have "p' = p\<lparr>proposals := proposals p @ [new_Proposal (NextProposalIndex jr p) (Term jr p) r d],
      raw_node := rn_Propose jr (raw_node p) x\<rparr>"
    using ProposeKvOp_leader [OF x assms(5), of r d] assms(4) by simp
  then have "propose_accepted jr (raw_node p) x"
    using assms(1-3) unfolding undropped_def by fastforce
  with x show ?thesis
    by blast
qed

definition undropped_execution :: "('rn, 'ms) jraft \<Rightarrow> 'db leveldb \<Rightarrow> pb_codec \<Rightarrow> (RpcClient \<Rightarrow> int)
    \<Rightarrow> (PeerId \<Rightarrow> 'rn set) \<Rightarrow> Message set \<Rightarrow> ('rn, 'db, 'ms) server \<Rightarrow> ('rn, 'db, 'ms) server \<Rightarrow> bool" where
  "undropped_execution jr ldb pb connect R M =
     (\<lambda>s s'. visits R M s \<and> server_step jr ldb pb connect s s' \<and> undropped jr s s')\<^sup>*\<^sup>*"

lemma undropped_execution_run:
  "undropped_execution jr ldb pb connect R M s0 s \<Longrightarrow> execution jr ldb pb connect R M s0 s"
  unfolding undropped_execution_def execution_def by (rule rtranclp_mono [THEN predicate2D, rotated]) auto

text \<open>A tick is silent, or it processes one ready of the node.\<close>

lemma Tick_cases:
  assumes "Tick jr ldb pb connect (p, s) = Inr (p', s')"
  obtains (silent) "\<not> rn_HasReady jr (rn_Tick jr (raw_node p))"
      "p' = p\<lparr>raw_node := rn_Tick jr (raw_node p)\<rparr>"
  | (ready) n rd q s1 where "n = rn_Tick jr (raw_node p)" "rn_HasReady jr n" "rd = ready_of jr n"
      "ProcessEntries jr ldb pb (rd_committed_entries rd) (p\<lparr>raw_node := stored_node jr n\<rparr>, s1) = Inr (q, s')"
      "raw_node q = stored_node jr n"
      "p' = q\<lparr>raw_node := rn_Advance jr (stored_node jr n) rd\<rparr>" "ran s1 = ran s"
      "resps s1 = resps s" "runs s1 = runs s"
proof (cases "rn_HasReady jr (rn_Tick jr (raw_node p))")
  case False
  then show thesis
    using assms silent by (simp add: Tick_def HandleRaftReady_def)
next
  case True
  let ?n = "rn_Tick jr (raw_node p)"
  define rd where "rd = ready_of jr ?n"
  obtain q1 s1 q where S: "SendMsgs connect (rd_messages rd) (p\<lparr>raw_node := stored_node jr ?n\<rparr>, s) = Inr (q1, s1)"
    and E: "ProcessEntries jr ldb pb (rd_committed_entries rd) (q1, s1) = Inr (q, s')"
    and p': "p' = q\<lparr>raw_node := rn_Advance jr (raw_node q) rd\<rparr>"
    using assms HandleRaftReady_stages [of jr "p\<lparr>raw_node := ?n\<rparr>" ldb pb connect s] True
    by (auto simp: Tick_def rd_def)
  have q1: "q1 = p\<lparr>raw_node := stored_node jr ?n\<rparr>"
    using SendMsgs_Inr [OF S] by simp
  with ProcessEntries_frame [OF E] have "raw_node q = stored_node jr ?n"
    by simp
  moreover have "resps s1 = resps s" "runs s1 = runs s"
    using SendMsgs_Inr [OF S] by simp_all
  moreover from this(2) have "ran s1 = ran s"
    by (rule ran_cong)
  ultimately show thesis
    using ready [OF refl True rd_def] E p' q1 by simp
qed

section \<open>Stores follow the log\<close>

text \<open>
  The hypothesis about the Raft library. \<open>applied\<close> counts the committed entries a node has handed
  out; only \<^verbatim>\<open>Advance\<close> moves it, by the entries of the ready it is given. The nodes in
  \<open>R\<close>, those of the execution at hand, hand out consecutive entries of the group's log.
\<close>

definition raft_delivers :: "('rn, 'ms) jraft \<Rightarrow> ('rn \<Rightarrow> nat) \<Rightarrow> (nat \<Rightarrow> Entry) \<Rightarrow> 'rn set \<Rightarrow> bool" where
  "raft_delivers jr applied LOG R \<longleftrightarrow>
     (\<forall>n. applied (rn_Tick jr n) = applied n) \<and> (\<forall>n m. applied (snd (rn_Step jr n m)) = applied n) \<and>
     (\<forall>n d. applied (rn_Propose jr n d) = applied n) \<and> (\<forall>n es. applied (rn_Append jr n es) = applied n) \<and>
     (\<forall>n. applied (snd (rn_GetReady jr n)) = applied n) \<and>
     (\<forall>n rd. applied (rn_Advance jr n rd) = applied n + length (rd_committed_entries rd)) \<and>
     (\<forall>n\<in>R. rn_HasReady jr (rn_Tick jr n) \<longrightarrow>
        (\<exists>k. rd_committed_entries (ready_of jr (rn_Tick jr n)) = map LOG [applied n..<applied n + k]))"

definition follows :: "('db \<Rightarrow> bytes \<rightharpoonup> bytes) \<Rightarrow> pb_codec \<Rightarrow> ('rn \<Rightarrow> nat) \<Rightarrow> (nat \<Rightarrow> Entry)
    \<Rightarrow> (bytes \<rightharpoonup> bytes) \<Rightarrow> ('rn, 'db) Peer \<Rightarrow> bool" where
  "follows view pb applied LOG m0 p \<longleftrightarrow>
     disk_contents view (kv_db p) = replay pb (map LOG [0..<applied (raw_node p)]) m0"

lemma raft_delivers_counts:
  assumes "raft_delivers jr applied LOG R"
  shows "applied (rn_Tick jr n) = applied n" "applied (snd (rn_Step jr n m)) = applied n"
    "applied (rn_Propose jr n d) = applied n" "applied (stored_node jr n) = applied n"
    "applied (rn_Advance jr n rd) = applied n + length (rd_committed_entries rd)"
proof -
  note laws = assms [unfolded raft_delivers_def]
  from laws show "applied (rn_Tick jr n) = applied n" "applied (snd (rn_Step jr n m)) = applied n"
    "applied (rn_Propose jr n d) = applied n"
    "applied (rn_Advance jr n rd) = applied n + length (rd_committed_entries rd)"
    by blast+
  from laws have "\<And>n. applied (snd (rn_GetReady jr n)) = applied n" "\<And>n es. applied (rn_Append jr n es) = applied n"
    by blast+
  then show "applied (stored_node jr n) = applied n"
    by (simp add: stored_node_def case_prod_beta Let_def)
qed

lemma Tick_follows:
  assumes "leveldb_contract ldb view" and raft: "raft_delivers jr applied LOG R" and "raw_node p \<in> R"
    and "Tick jr ldb pb connect (p, s) = Inr (p', s')" and "follows view pb applied LOG m0 p"
  shows "follows view pb applied LOG m0 p'"
  using assms(4)
proof (cases rule: Tick_cases)
  case silent
  then show ?thesis
    using assms(5) by (simp add: raft_delivers_counts [OF raft] follows_def)
next
  case (ready n rd q s1)
  let ?a = "applied (raw_node p)" and ?es = "rd_committed_entries rd"
  obtain k where k: "?es = map LOG [?a..<?a + k]"
    using raft assms(3) ready(1-3) unfolding raft_delivers_def by blast
  have "applied (raw_node p') = ?a + length ?es"
    by (simp add: ready(1,6) raft_delivers_counts [OF raft])
  moreover have "disk_contents view (kv_db p') = replay pb ?es (disk_contents view (kv_db p))"
    using apply_entries_effect [OF assms(1) ProcessEntries_store [OF ready(4)]] ready(6) by simp
  moreover have "map LOG [0..<?a + k] = map LOG [0..<?a] @ map LOG [?a..<?a + k]"
    by (simp only: upt_add_eq_append [OF le0] map_append)
  ultimately show ?thesis
    using assms(5) by (simp add: follows_def replay_append k)
qed

lemma peer_move_follows:
  assumes "leveldb_contract ldb view" and raft: "raft_delivers jr applied LOG R" and "raw_node p \<in> R"
    and "peer_move jr ldb pb connect M p p'" and "follows view pb applied LOG m0 p"
  shows "follows view pb applied LOG m0 p'"
  using assms(4)
proof cases
  case (proposes req r d)
  then show ?thesis
    using assms(5)
    by (auto simp: ProposeKvOp_def Let_def raft_delivers_counts [OF raft] follows_def split: option.splits)
next
  case (steps m e)
  then show ?thesis
    using assms(5) raft_delivers_counts(2) [OF raft, of "raw_node p" m]
    by (auto simp: Step_def follows_def split: prod.splits)
next
  case (ticks s s')
  then show ?thesis
    using Tick_follows [OF assms(1-3) ticks assms(5)] by simp
qed (use assms(5) in simp)

lemma execution_follows:
  assumes "leveldb_contract ldb view" and "raft_delivers jr applied LOG (R i)"
    and "execution jr ldb pb connect R M s0 s" and "local_peers s0 i = Some p0"
    and "applied (raw_node p0) = 0" and "local_peers s i = Some p"
  shows "follows view pb applied LOG (disk_contents view (kv_db p0)) p"
proof -
  let ?I = "\<lambda>j q. j = i \<longrightarrow> follows view pb applied LOG (disk_contents view (kv_db p0)) q"
  have "?I i p"
  proof (rule execution_peers [OF assms(3) _ _ assms(6), where I = ?I])
    fix j q q'
    assume "?I j q" "raw_node q \<in> R j" "peer_move jr ldb pb connect M q q'"
    then show "?I j q'"
      using peer_move_follows [OF assms(1,2)] by blast
  qed (use assms(4,5) in \<open>auto simp: follows_def\<close>)
  then show ?thesis
    by simp
qed

section \<open>A Raft node that commits what is proposed to it\<close>

text \<open>For evaluation: a node is its log and the number of entries it has handed out.\<close>

definition line_raft :: "(Entry list \<times> nat, Snapshot) jraft" where
  "line_raft = \<lparr>cfg_Validate = Inr, ms_GetSnapshot = (\<lambda>ms. (kOk, ms)), ms_set_snapshot = (\<lambda>_ s. s),
     rn_new = (\<lambda>_ _. Inr ([], 0)), rn_Tick = id, rn_Step = (\<lambda>n _. (kOk, n)),
     rn_Propose = (\<lambda>(l, a) d. (l @ [demo_entry 1 (of_nat (length l) + 1) d], a)),
     rn_HasReady = (\<lambda>(l, a). a < length l),
     rn_GetReady = (\<lambda>(l, a). (no_ready\<lparr>rd_committed_entries := drop a l\<rparr>, (l, a))), rn_Append = (\<lambda>n _. n),
     rn_Advance = (\<lambda>(l, a) rd. (l, a + length (rd_committed_entries rd))), rn_IsLeader = (\<lambda>_. True),
     rn_term = (\<lambda>_. 1), rn_LastIndex = (\<lambda>(l, a). of_nat (length l))\<rparr>"

definition line_peer :: "Entry list \<Rightarrow> nat \<Rightarrow> (bytes \<times> bytes) list \<Rightarrow> Proposal list
    \<Rightarrow> (Entry list \<times> nat, (bytes \<times> bytes) list) Peer" where
  "line_peer l a d q = \<lparr>self = demo_member 1, worker = 0, peers = [], raw_node = (l, a),
     kv_db = \<lparr>db_path = peer_dir ''host'' 1, db = d\<rparr>, proposals = q\<rparr>"

definition line_server :: "Entry list \<Rightarrow> nat \<Rightarrow> (bytes \<times> bytes) list \<Rightarrow> Proposal list \<Rightarrow> task list
    \<Rightarrow> (Entry list \<times> nat, (bytes \<times> bytes) list, Snapshot) server" where
  "line_server l a d q ts = \<lparr>resps = \<lambda>_. default_KvResp, runs = [], rpc_cli_mgr = Map.empty, sent = [],
     next_obj = 0, live_objs = {}, awaiting = [],
     host_opt = \<lparr>ho_host_id = 1, ho_worker = 0, ho_db_path = ''host'', ho_storage = None\<rparr>,
     local_peers = [1 \<mapsto> line_peer l a d q], loop_tasks = ts, timers = [1]\<rparr>"

definition demo_log :: "Entry list" where
  "demo_log = [demo_entry 1 1 ''p1,a1'', demo_entry 1 2 ''ga'']"

definition line_nodes :: "(Entry list \<times> nat) set" where
  "line_nodes = {(l, a). prefix l demo_log}"

lemma line_server_peer: "local_peers (line_server l a d q ts) 1 = Some (line_peer l a d q)"
  by (simp add: line_server_def)

lemma line_visits: "prefix l demo_log \<Longrightarrow> visits (\<lambda>_. line_nodes) {} (line_server l a d q [KvOpTask req r c])"
  "prefix l demo_log \<Longrightarrow> visits (\<lambda>_. line_nodes) {} (line_server l a d q [])"
  by (auto simp: visits_def line_server_def line_peer_def line_nodes_def split: if_splits)

lemma line_undropped: "undropped line_raft s s'"
  by (simp add: undropped_def line_raft_def propose_accepted_def split: prod.splits)

lemma line_raft_delivers: "raft_delivers line_raft snd ((!) demo_log) line_nodes"
proof -
  have "drop a l = map ((!) demo_log) [a..<a + (length l - a)]" if "prefix l demo_log" for l a
    using that by (auto simp: list_eq_iff_nth_eq prefix_def nth_append)
  then have "\<exists>k. drop a l = map ((!) demo_log) [a..<a + k]" if "prefix l demo_log" for l a
    using that by blast
  then show ?thesis
    by (auto simp: raft_delivers_def line_raft_def line_nodes_def ready_of_def)
qed

lemma line_Tick:
  "with_peer 1 (Tick line_raft mem_leveldb demo_codec (\<lambda>_. 0)) (line_peer demo_log 0 [] [])
       (line_server demo_log 0 [] [] []) = Inr (line_server demo_log 2 [(''a'', ''1'')] [] [])"
  by (simp add: with_peer_def Tick_def HandleRaftReady_def line_raft_def demo_log_def line_server_def line_peer_def
      no_ready_def peer_eval demo_entry_def demo_codec_defs store_eval numeral_2_eq_2)

lemma line_execution:
  "execution line_raft mem_leveldb demo_codec (\<lambda>_. 0) (\<lambda>_. line_nodes) {} (line_server demo_log 0 [] [] [])
     (line_server demo_log 2 [(''a'', ''1'')] [] [])"
proof -
  have "server_step line_raft mem_leveldb demo_codec (\<lambda>_. 0) (line_server demo_log 0 [] [] [])
      (line_server demo_log 2 [(''a'', ''1'')] [] [])"
    by (rule timer_fires [OF _ line_server_peer line_Tick]) (simp add: line_server_def)
  then show ?thesis
    unfolding execution_def by (intro r_into_rtranclp) (simp add: line_visits)
qed

section \<open>Properties\<close>

text \<open>
  C1: in every execution of a server, the store of a local peer is the replay of the group's log.
  Whatever the interleaving of client requests, Raft messages, queued callbacks and timer ticks, its
  contents are those at the start changed by exactly the first entries of the log, as many as the
  Raft node has handed out: nothing is applied twice, skipped or reordered.
\<close>

theorem store_follows_log:
  assumes "leveldb_contract ldb view" and "raft_delivers jr applied LOG (R i)"
    and "execution jr ldb pb connect R M s0 s" and "local_peers s0 i = Some p0"
    and "applied (raw_node p0) = 0" and "local_peers s i = Some p"
  shows "disk_contents view (kv_db p) =
    replay pb (map LOG [0..<applied (raw_node p)]) (disk_contents view (kv_db p0))"
  using execution_follows [OF assms] by (simp add: follows_def)

theorem store_follows_log_witness:
  "disk_contents map_of \<lparr>db_path = peer_dir ''host'' 1, db = [(''a'', ''1'')]\<rparr> =
     replay demo_codec (map ((!) demo_log) [0..<2]) (disk_contents map_of \<lparr>db_path = peer_dir ''host'' 1, db = []\<rparr>)"
  using store_follows_log [OF mem_leveldb_contract line_raft_delivers line_execution line_server_peer _ line_server_peer]
  by (simp add: line_peer_def)

text \<open>
  C6: the servers of a group are consistent. Take two servers in any two states of their own
  executions, with databases of any implementation and equal contents at the start, whose Raft nodes
  hand out the same log. If the peer of the first has been handed out no more entries than the peer
  of the second, then replaying the missing entries takes the store of the first to the store of the
  second; with equal counts the stores are equal.
\<close>

theorem servers_consistent:
  fixes s :: "('rn, 'db, 'ms) server" and t :: "('rn2, 'db2, 'ms2) server"
  assumes "leveldb_contract ldb view" and "raft_delivers jr applied LOG (R i)"
    and "execution jr ldb pb connect R M s0 s" and "local_peers s0 i = Some p0"
    and "applied (raw_node p0) = 0" and "local_peers s i = Some p"
    and "leveldb_contract ldb' view'" and "raft_delivers jr' applied' LOG (R' j)"
    and "execution jr' ldb' pb connect' R' M' t0 t" and "local_peers t0 j = Some q0"
    and "applied' (raw_node q0) = 0" and "local_peers t j = Some q"
    and "disk_contents view (kv_db p0) = disk_contents view' (kv_db q0)"
    and "applied (raw_node p) \<le> applied' (raw_node q)"
  shows "disk_contents view' (kv_db q) =
      replay pb (map LOG [applied (raw_node p)..<applied' (raw_node q)]) (disk_contents view (kv_db p))"
proof -
  have "[0..<applied' (raw_node q)] = [0..<applied (raw_node p)] @ [applied (raw_node p)..<applied' (raw_node q)]"
    using upt_add_eq_append [of 0 "applied (raw_node p)" "applied' (raw_node q) - applied (raw_node p)"] assms(14)
    by simp
  then show ?thesis
    using execution_follows [OF assms(1-6)] execution_follows [OF assms(7-12)] assms(13)
    by (simp add: follows_def replay_append)
qed

theorem servers_consistent_witness:
  "disk_contents map_of \<lparr>db_path = peer_dir ''host'' 1, db = [(''a'', ''1'')]\<rparr> =
     replay demo_codec (map ((!) demo_log) [0..<2]) (disk_contents map_of \<lparr>db_path = peer_dir ''host'' 1, db = []\<rparr>)"
proof -
  have idle: "execution line_raft mem_leveldb demo_codec (\<lambda>_. 0) (\<lambda>_. line_nodes) {}
      (line_server demo_log 0 [] [] []) (line_server demo_log 0 [] [] [])"
    by (simp add: execution_def)
  show ?thesis
    using servers_consistent [OF mem_leveldb_contract line_raft_delivers idle line_server_peer _ line_server_peer
        mem_leveldb_contract line_raft_delivers line_execution line_server_peer _ line_server_peer]
    by (simp add: line_peer_def)
qed

text \<open>
  A restarted replica recovers. Let a peer with an empty database apply a part of the log, and
  let it stop there. A peer that opens the same database and is given the log again from its first
  entry, now further than before, survives it whenever a replica that never stopped would, and ends
  with the same contents.
\<close>

theorem restart_recovers:
  assumes "leveldb_contract ldb view" and "leveldb_reliable ldb view"
    and "log_legal pb (es @ es') Map.empty" and "disk_contents view (kv_db p0) = Map.empty"
    and "ProcessEntries jr ldb pb es (p0, s) = Inr (p1, s1)"
    and "disk_contents view (kv_db p2) = disk_contents view (kv_db p1)"
  shows "\<exists>p' s'. ProcessEntries jr' ldb pb (es @ es') (p2, t) = Inr (p', s')
    \<and> disk_contents view (kv_db p') = replay pb (es @ es') Map.empty"
proof -
  have c: "disk_contents view (kv_db p2) = replay pb es Map.empty"
    using apply_entries_effect [OF assms(1) ProcessEntries_store [OF assms(5)]] assms(4,6) by simp
  have "log_legal pb (es @ es') (disk_contents view (kv_db p2))"
    by (rule log_legal_mono [OF assms(3)]) simp
  then obtain p' s' where r: "ProcessEntries jr' ldb pb (es @ es') (p2, t) = Inr (p', s')"
    using ProcessEntries_returns_iff [of jr' ldb pb "es @ es'" p2 t] apply_entries_legal_iff [OF assms(1,2)]
    by fastforce
  moreover have "disk_contents view (kv_db p') = replay pb (es @ es') Map.empty"
    using apply_entries_effect [OF assms(1) ProcessEntries_store [OF r]] c by (simp add: replay_over_prefix)
  ultimately show ?thesis
    by blast
qed

theorem restart_recovers_witness:
  "\<exists>p' s'. ProcessEntries solo_raft mem_leveldb demo_codec ([demo_entry 1 1 ''p1,a1''] @ [demo_entry 1 2 ''p1,b2''])
      (demo_peer (solo_new False 3 0) [(''a'', ''1'')] [], demo_replies) = Inr (p', s')
    \<and> disk_contents map_of (kv_db p') =
        replay demo_codec ([demo_entry 1 1 ''p1,a1''] @ [demo_entry 1 2 ''p1,b2'']) Map.empty"
proof -
  have first: "ProcessEntries solo_raft mem_leveldb demo_codec [demo_entry 1 1 ''p1,a1'']
      (demo_peer (solo_new True 1 0) [] [], demo_replies) =
      Inr (demo_peer (solo_new True 1 0) [(''a'', ''1'')] [], demo_replies)"
    by (simp add: peer_eval demo_defs solo_defs demo_codec_defs store_eval)
  show ?thesis
    by (rule restart_recovers [OF mem_leveldb_contract mem_leveldb_reliable _ _ first])
      (simp_all add: demo_defs demo_codec_defs disk_contents_def entry_defs)
qed

text \<open>
  C23: a committed Get of an absent key stops the group for good. If the log up to the Get leaves the
  key unbound over the first contents \<open>m0\<close>, then every replica that is given the log from its first
  entry ends in \<^verbatim>\<open>JLOG_FATAL\<close>, whatever its role, its pending proposals and its database: one
  that starts from \<open>m0\<close>, and one that is started again after it had applied any first part of the
  log before the Get. If the entries before the Get are applied, the fault is that of
  \<^verbatim>\<open>DiskStorage::Get\<close>.
\<close>

theorem absent_get_stops_replica:
  assumes "leveldb_contract ldb view" and "entry_op pb e = Some (SGet k)" and "replay pb es m0 k = None"
    and "disk_contents view (kv_db peer) = replay pb (take i es) m0"
  shows "(\<exists>t. ProcessEntries jr ldb pb (es @ e # es') (peer, s) = fatal t)
    \<and> (\<forall>st. ProcessEntries jr ldb pb es (peer, s) = Inr st \<longrightarrow>
         (\<exists>msg. ProcessEntries jr ldb pb (es @ e # es') (peer, s) = fatal (''can't get kv from db, err_msg: '' @ msg)))"
proof -
  have absent: "replay pb es (disk_contents view (kv_db peer)) k = None"
    using replay_over_prefix [of pb "take i es" "drop i es" m0] assms(3,4) by simp
  have get: "\<exists>msg. ProcessEntries jr ldb pb (es @ e # es') (peer, s) = fatal (''can't get kv from db, err_msg: '' @ msg)"
    if st: "ProcessEntries jr ldb pb es (peer, s) = Inr st" for st
  proof -
    obtain p1 s1 where st1: "st = (p1, s1)"
      by fastforce
    have "disk_contents view (kv_db p1) k = None"
      using apply_entries_effect [OF assms(1) ProcessEntries_store [OF st [unfolded st1]]] absent by simp
    then obtain msg where "ProcessEntry jr ldb pb e st = fatal (''can't get kv from db, err_msg: '' @ msg)"
      using absent_get_fault [OF assms(1,2)] st1 by blast
    with st show ?thesis
      by (auto simp: ProcessEntries_def ofold_append)
  qed
  moreover have "\<exists>t. ProcessEntries jr ldb pb (es @ e # es') (peer, s) = fatal t"
  proof (cases "ProcessEntries jr ldb pb es (peer, s)")
    case (Inl f)
    then have "ProcessEntries jr ldb pb (es @ e # es') (peer, s) = Inl f"
      by (simp add: ProcessEntries_def ofold_append)
    with ProcessEntries_fatal [OF Inl] show ?thesis
      by auto
  qed (use get in blast)
  ultimately show ?thesis
    by blast
qed

theorem absent_get_stops_replica_witness:
  "\<exists>t. ProcessEntries solo_raft mem_leveldb demo_codec
     ([demo_entry 1 1 ''p2,k1v1'', demo_entry 1 2 ''dk1''] @ demo_entry 1 3 ''gk1'' # [])
     (demo_peer (solo_new False 1 0) [(''k1'', ''v1'')] [], demo_replies) = fatal t"
  by (rule absent_get_stops_replica [THEN conjunct1, OF mem_leveldb_contract, of _ _ "''k1''" _ Map.empty _ 1])
    (simp_all add: demo_defs demo_codec_defs entry_defs disk_contents_def fun_eq_iff)

end
