(* ===== verification/Server_Order.thy ===== *)
theory Server_Order
  imports Replication
begin

text \<open>
  The proposal queues of a running server. \<^verbatim>\<open>GetProposal\<close> searches a queue from its front and
  is only right on a queue in log order; this theory shows that every queue stays in log order
  through all interleavings in which the Raft node drops no proposal (\<open>undropped_execution\<close>), given
  that the node behaves as the protocol promises (\<open>raft_orders\<close>), and from it what a client is told in terms of the group's log.
\<close>

section \<open>What the Raft node promises\<close>

text \<open>
  \<open>led n\<close>: the node has been leader in its current term. A node's term never decreases, and as long
  as it stays the same, a node that has led in it keeps that property and its log does not shrink
  (only the leader of a term makes others truncate their logs in it, and there is one per term).
\<close>

definition advances :: "('rn, 'ms) jraft \<Rightarrow> ('rn \<Rightarrow> bool) \<Rightarrow> 'rn \<Rightarrow> 'rn \<Rightarrow> bool" where
  "advances jr led n n' \<longleftrightarrow> rn_term jr n < rn_term jr n'
     \<or> rn_term jr n = rn_term jr n' \<and> (led n \<longrightarrow> led n' \<and> rn_LastIndex jr n \<le> rn_LastIndex jr n')"

lemma advances_trans: "advances jr led a b \<Longrightarrow> advances jr led b c \<Longrightarrow> advances jr led a c"
  by (auto simp: advances_def)

text \<open>
  The nodes of the execution are in \<open>R\<close>, its Raft messages in \<open>M\<close>: ticking, stepping a message, and
  a whole round in which the node stores the entries of its ready and advances, are such moves. The
  log of a leader has fewer than \<open>2\<^sup>6\<^sup>4 - 1\<close> entries. Nothing is assumed of \<^verbatim>\<open>Propose\<close>: that
  no proposal was dropped is a condition on the execution.
\<close>

definition raft_orders :: "('rn, 'ms) jraft \<Rightarrow> ('rn \<Rightarrow> bool) \<Rightarrow> 'rn set \<Rightarrow> Message set \<Rightarrow> bool" where
  "raft_orders jr led R M \<longleftrightarrow>
     (\<forall>n. rn_IsLeader jr n \<longrightarrow> led n) \<and>
     (\<forall>n\<in>R. advances jr led n (rn_Tick jr n)) \<and>
     (\<forall>n\<in>R. \<forall>m\<in>M. advances jr led n (snd (rn_Step jr n m))) \<and>
     (\<forall>n\<in>R. rn_HasReady jr (rn_Tick jr n) \<longrightarrow> advances jr led n
        (rn_Advance jr (stored_node jr (rn_Tick jr n)) (ready_of jr (rn_Tick jr n)))) \<and>
     (\<forall>n\<in>R. rn_IsLeader jr n \<longrightarrow> rn_LastIndex jr n \<noteq> - 1)"

lemma raft_ordersD:
  assumes "raft_orders jr led R M"
  shows "rn_IsLeader jr n \<Longrightarrow> led n" "n \<in> R \<Longrightarrow> advances jr led n (rn_Tick jr n)"
    "n \<in> R \<Longrightarrow> m \<in> M \<Longrightarrow> advances jr led n (snd (rn_Step jr n m))"
    "n \<in> R \<Longrightarrow> rn_HasReady jr (rn_Tick jr n) \<Longrightarrow> advances jr led n
       (rn_Advance jr (stored_node jr (rn_Tick jr n)) (ready_of jr (rn_Tick jr n)))"
    "n \<in> R \<Longrightarrow> rn_IsLeader jr n \<Longrightarrow> rn_LastIndex jr n \<noteq> - 1"
  using assms unfolding raft_orders_def by blast+

section \<open>Queues of a running server\<close>

definition queue_ok :: "('rn, 'ms) jraft \<Rightarrow> ('rn \<Rightarrow> bool) \<Rightarrow> ('rn, 'db) Peer \<Rightarrow> bool" where
  "queue_ok jr led p \<longleftrightarrow> ordered (proposals p) \<and>
     (\<forall>q\<in>set (proposals p). p_term q < Term jr p
        \<or> p_term q = Term jr p \<and> led (raw_node p) \<and> p_index q \<le> rn_LastIndex jr (raw_node p))"

lemma queue_ok_inv: "queue_ok jr led p \<Longrightarrow> proposals_inv jr p"
  by (auto simp: queue_ok_def proposals_inv_def)

text \<open>Dropping a front part of the queue while the node advances keeps the queue in order.\<close>

lemma queue_ok_advances:
  assumes "queue_ok jr led p" and "advances jr led (raw_node p) (raw_node p')"
    and "proposals p = xs @ proposals p'"
  shows "queue_ok jr led p'"
proof -
  have "ordered (proposals p')"
    using assms(1,3) by (auto simp: queue_ok_def ordered_append_iff)
  moreover have "set (proposals p') \<subseteq> set (proposals p)"
    using assms(3) by auto
  ultimately show ?thesis
    using assms(1,2) by (fastforce simp: queue_ok_def advances_def Term_def)
qed

lemma ProcessEntries_suffix:
  assumes "ProcessEntries jr ldb pb es (p, s) = Inr (p', s')"
  shows "\<exists>xs. proposals p = xs @ proposals p'"
proof -
  let ?I = "\<lambda>st. \<exists>xs. proposals p = xs @ proposals (fst st)"
  have "?I (p', s')"
  proof (rule ofold_invariant [where I = ?I])
    show "ofold (ProcessEntry jr ldb pb) es (p, s) = Inr (p', s')"
      using assms by (simp add: ProcessEntries_def)
  next
    fix e st st'
    assume "?I st" and e: "ProcessEntry jr ldb pb e st = Inr st'"
    then obtain xs where xs: "proposals p = xs @ proposals (fst st)"
      by blast
    obtain f q1 s1 where c: "claim_proposal jr e (fst st, snd st) = (f, q1, s1)"
      and q: "proposals (fst st') = proposals q1"
      by (rule ProcessEntry_queue [of jr ldb pb e "fst st" "snd st" "fst st'" "snd st'"]) (use e in simp)
    show "?I st'"
      using xs claim_proposal_queue(1) [OF c] q by (metis append.assoc)
  qed simp
  then show ?thesis
    by simp
qed

lemma Tick_queue_ok:
  assumes "raft_orders jr led R M" and "raw_node p \<in> R" and "Tick jr ldb pb connect (p, s) = Inr (p', s')"
    and "queue_ok jr led p"
  shows "queue_ok jr led p'"
  using assms(3)
proof (cases rule: Tick_cases)
  case silent
  then show ?thesis
    using queue_ok_advances [OF assms(4), of p' "[]"] raft_ordersD(2) [OF assms(1,2)] by simp
next
  case (ready n rd q s1)
  have "advances jr led (raw_node p) (raw_node p')"
    using raft_ordersD(4) [OF assms(1,2)] ready(1-3,6) by simp
  moreover obtain xs where "proposals p = xs @ proposals p'"
    using ProcessEntries_suffix [OF ready(4)] ready(6) by auto
  ultimately show ?thesis
    by (rule queue_ok_advances [OF assms(4)])
qed

lemma ProposeKvOp_queue_ok:
  assumes "raft_orders jr led R M" and "raw_node p \<in> R" and "IsLeader jr p"
    and "ProposeKvOp jr pb req r c p = Inr p'" and "queue_ok jr led p"
    and d: "SerializeToString pb req = Some d" and acc: "propose_accepted jr (raw_node p) d"
  shows "queue_ok jr led p'"
proof -
  have room: "rn_LastIndex jr (raw_node p) \<noteq> - 1"
    using raft_ordersD(5) [OF assms(1,2)] assms(3) by (simp add: IsLeader_def)
  let ?q = "new_Proposal (NextProposalIndex jr p) (Term jr p) r c"
  have p': "p' = p\<lparr>proposals := proposals p @ [?q], raw_node := rn_Propose jr (raw_node p) d\<rparr>"
    using assms(4) ProposeKvOp_leader [OF d assms(3), of r c] by simp
  have "led (raw_node p')"
    using raft_ordersD(1) [OF assms(1)] acc by (simp add: p' propose_accepted_def)
  moreover have "ordered (proposals p')"
    using ProposeKvOp_ordered [OF queue_ok_inv [OF assms(5)] room] by (simp add: p')
  moreover have "before x ?q" if "x \<in> set (proposals p)" for x
    using ProposeKvOp_before [OF queue_ok_inv [OF assms(5)] room that] .
  ultimately show ?thesis
    using acc by (fastforce simp: queue_ok_def p' propose_accepted_def Term_def NextProposalIndex_def
        new_Proposal_def before_def)
qed

lemma undropped_step_queue_ok:
  assumes "raft_orders jr led (R i) M" and "visits R M s" and "server_step jr ldb pb connect s s'" and "undropped jr s s'"
    and p': "local_peers s' i = Some p'" and "\<And>p. local_peers s i = Some p \<Longrightarrow> queue_ok jr led p"
  shows "queue_ok jr led p'"
proof -
  obtain p where p: "local_peers s i = Some p" and move: "peer_move jr ldb pb connect M p p'"
    using server_step_moves [OF assms(3) p' assms(2)] by blast
  have ok: "queue_ok jr led p" and R: "raw_node p \<in> R i"
    using assms(2,6) p by (auto simp: visits_def)
  from move show ?thesis
  proof cases
    case (proposes req r d)
    then show ?thesis
      using undroppedD [OF assms(4) p p' proposes(2,1)] ProposeKvOp_queue_ok [OF assms(1) R proposes ok] by blast
  next
    case (steps m e)
    then show ?thesis
      using queue_ok_advances [OF ok, of p' "[]"] raft_ordersD(3) [OF assms(1) R steps(1)]
      by (auto simp: Step_def split: prod.splits)
  next
    case (ticks t t')
    then show ?thesis
      using Tick_queue_ok [OF assms(1) R ticks ok] by simp
  qed (use ok in simp)
qed

lemma undropped_execution_queue_ok:
  assumes "raft_orders jr led (R i) M" and "undropped_execution jr ldb pb connect R M s0 s"
    and "server_start s0" and "local_peers s i = Some p"
  shows "queue_ok jr led p"
  using assms(2,4) unfolding undropped_execution_def
proof (induction arbitrary: p rule: rtranclp_induct)
  case base
  then show ?case
    using assms(3) by (auto simp: server_start_def queue_ok_def)
next
  case (step s s')
  then show ?case
    using undropped_step_queue_ok [of jr led R i M s ldb pb connect s' p] assms(1) by blast
qed

section \<open>Answers in terms of the log\<close>

lemma ProcessEntry_runs_grow:
  assumes "ProcessEntry jr ldb pb e (p, s) = Inr (p', s')"
  shows "set (runs s) \<subseteq> set (runs s')"
proof -
  obtain f p1 s1 where c: "claim_proposal jr e (p, s) = (f, p1, s1)"
    by (cases "claim_proposal jr e (p, s)") auto
  have "set (runs s) \<subseteq> set (runs s1)"
    using claim_proposal_queue(2) [OF c] fold_reject_runs [of "rejects jr e p" s] by auto
  moreover have "set (runs s1) \<subseteq> set (runs s')"
    using assms c by (auto simp: ProcessEntry_def ProcessNormal_def ProcessConfChange_def run_if_def
        split: if_splits option.splits CmdType.splits)
  ultimately show ?thesis
    by blast
qed

lemma ProcessEntries_runs_grow:
  "ofold (ProcessEntry jr ldb pb) es st = Inr st' \<Longrightarrow> set (runs (snd st)) \<subseteq> set (runs (snd st'))"
proof (induction es arbitrary: st)
  case (Cons e es)
  then obtain st1 where st1: "ProcessEntry jr ldb pb e st = Inr st1" "ofold (ProcessEntry jr ldb pb) es st1 = Inr st'"
    by auto
  with ProcessEntry_runs_grow [of jr ldb pb e "fst st" "snd st" "fst st1" "snd st1"] Cons.IH [OF st1(2)]
  show ?case
    by simp
qed simp

text \<open>The answer to an entry in the middle of a batch.\<close>

lemma ProcessEntries_answer:
  assumes "leveldb_contract ldb view"
    and "ProcessEntries jr ldb pb (es @ e # es') (p, s) = Inr (p', s')"
    and "IsLeader jr p" and "ordered (proposals p)" and "q \<in> set (proposals p)"
    and "matches (entry_index e) (entry_term e) q" and "\<forall>e'\<in>set es. entry_before e' q"
    and "entry_op pb e = Some c"
  shows "\<exists>h. (p_done q, h) \<in> set (runs s')
    \<and> (\<forall>k. c = SGet k \<longrightarrow> (\<exists>v. get_resp_opt (h (p_resp q)) = Some \<lparr>get_value = v\<rparr>
         \<and> replay pb es (disk_contents view (kv_db p)) k = Some v))"
proof -
  have "obind (ofold (ProcessEntry jr ldb pb) (es @ [e]) (p, s)) (ofold (ProcessEntry jr ldb pb) es') = Inr (p', s')"
    using assms(2) by (simp add: ProcessEntries_def flip: ofold_append)
  then obtain st1 where one: "ofold (ProcessEntry jr ldb pb) (es @ [e]) (p, s) = Inr st1"
    and two: "ofold (ProcessEntry jr ldb pb) es' st1 = Inr (p', s')"
    by (rule obind_InrE)
  have "ProcessEntries jr ldb pb (es @ [e]) (p, s) = Inr (fst st1, snd st1)"
    using one by (simp add: ProcessEntries_def)
  from batch_answer [OF assms(1) this assms(3-8)] ProcessEntries_runs_grow [OF two] show ?thesis
    by fastforce
qed

lemma tick_answers:
  assumes "leveldb_contract ldb view" and "raft_delivers jr applied LOG (R i)" and "raft_orders jr led (R i) M"
    and "server_start s0" and "undropped_execution jr ldb pb connect R M s0 s" and "visits R M s"
    and "local_peers s0 i = Some p0" and "applied (raw_node p0) = 0" and "local_peers s i = Some p"
    and "n = rn_Tick jr (raw_node p)" and "rn_HasReady jr n" and "rn_IsLeader jr (stored_node jr n)"
    and "rd_committed_entries (ready_of jr n) = es @ e # es'"
    and "q \<in> set (proposals p)" and "matches (entry_index e) (entry_term e) q"
    and "\<forall>e'\<in>set es. entry_before e' q" and "entry_op pb e = Some c"
    and "with_peer i (Tick jr ldb pb connect) p s = Inr s'"
  shows "\<exists>h. e = LOG (applied (raw_node p) + length es) \<and> (p_done q, h) \<in> set (runs s')
    \<and> (\<forall>k. c = SGet k \<longrightarrow> (\<exists>v. get_resp_opt (h (p_resp q)) = Some \<lparr>get_value = v\<rparr>
         \<and> replay pb (map LOG [0..<applied (raw_node p) + length es]) (disk_contents view (kv_db p0)) k = Some v))"
proof -
  let ?a = "applied (raw_node p)"
  define j where "j = ?a + length es"
  obtain p' s1 where T: "Tick jr ldb pb connect (p, s) = Inr (p', s1)"
    and s': "s' = s1\<lparr>local_peers := (local_peers s1)(i \<mapsto> p')\<rparr>"
    using assms(18) by (auto simp: with_peer_def)
  from T obtain p1 s2 where E: "ProcessEntries jr ldb pb (es @ e # es') (p\<lparr>raw_node := stored_node jr n\<rparr>, s2) = Inr (p1, s1)"
    by (cases rule: Tick_cases) (use assms(10,11,13) in auto)
  have "raw_node p \<in> R i"
    using assms(6,9) by (simp add: visits_def)
  then obtain m where m: "es @ e # es' = map LOG [?a..<?a + m]"
    using assms(2,10,11,13) unfolding raft_delivers_def by metis
  have "length es < m"
    using arg_cong [OF m, of length] by simp
  then have "[?a..<?a + m] = [?a..<j] @ j # [Suc j..<?a + m]"
    using upt_add_eq_append [of ?a j "?a + m - j"] by (simp add: j_def upt_conv_Cons)
  with m have es: "es = map LOG [?a..<j]" and e: "e = LOG j"
    by (auto simp: append_eq_append_conv j_def)
  have "[0..<j] = [0..<?a] @ [?a..<j]"
    using upt_add_eq_append [of 0 ?a "length es"] by (simp add: j_def)
  then have "map LOG [0..<j] = map LOG [0..<?a] @ es"
    by (simp only: map_append flip: es)
  then have pre: "replay pb es (disk_contents view (kv_db p)) =
      replay pb (map LOG [0..<j]) (disk_contents view (kv_db p0))"
    using execution_follows [OF assms(1,2) undropped_execution_run [OF assms(5)] assms(7-9)] by (simp add: follows_def replay_append)
  have "ordered (proposals p)"
    using undropped_execution_queue_ok [OF assms(3,5,4,9)] by (simp add: queue_ok_def)
  then show ?thesis
    using ProcessEntries_answer [OF assms(1) E, of q c] assms(12,14-17) pre e s' by (auto simp: IsLeader_def j_def)
qed

text \<open>A write that no later entry of a beginning of the log overwrites is the last one in it.\<close>

lemma last_written_None: "(\<And>e. e \<in> set es \<Longrightarrow> written pb k e = None) \<Longrightarrow> last_written pb k es = None"
  by (induction es) auto

lemma last_written_at:
  assumes "m < n" and "written pb k (LOG m) = Some x" and "\<And>l. m < l \<Longrightarrow> l < n \<Longrightarrow> written pb k (LOG l) = None"
  shows "last_written pb k (map LOG [0..<n]) = Some x"
proof -
  have "[0..<n] = [0..<m] @ m # [Suc m..<n]"
    using upt_add_eq_append [of 0 m "n - m"] assms(1) by (simp add: upt_conv_Cons)
  moreover have "last_written pb k (map LOG [Suc m..<n]) = None"
    using assms(3) by (intro last_written_None) auto
  ultimately show ?thesis
    using assms(2) by (simp add: last_written_append)
qed

lemma peer_move_applied:
  assumes "raft_delivers jr applied LOG R" and "peer_move jr ldb pb connect M p p'"
  shows "applied (raw_node p) \<le> applied (raw_node p')"
  using assms(2)
proof cases
  case (proposes req r d)
  then show ?thesis
    by (auto simp: ProposeKvOp_def Let_def raft_delivers_counts [OF assms(1)] split: option.splits)
next
  case (steps m e)
  then show ?thesis
    using raft_delivers_counts(2) [OF assms(1), of "raw_node p" m] by (auto simp: Step_def split: prod.splits)
next
  case (ticks s s')
  then show ?thesis
    by (cases rule: Tick_cases) (simp_all add: raft_delivers_counts [OF assms(1)])
qed simp

lemma execution_applied:
  assumes "raft_delivers jr applied LOG (R i)" and "execution jr ldb pb connect R M s t"
    and "local_peers s i = Some p" and "local_peers t i = Some q"
  shows "applied (raw_node p) \<le> applied (raw_node q)"
proof -
  let ?I = "\<lambda>j x. j = i \<longrightarrow> applied (raw_node p) \<le> applied (raw_node x)"
  have "?I i q"
  proof (rule execution_peers [OF assms(2) _ _ assms(4), where I = ?I])
    fix j x x'
    assume "?I j x" "peer_move jr ldb pb connect M x x'"
    then show "?I j x'"
      using peer_move_applied [OF assms(1)] by (meson le_trans)
  qed (use assms(3) in auto)
  then show ?thesis
    by simp
qed

lemma undropped_execution_trans:
  "undropped_execution jr ldb pb connect R M s t \<Longrightarrow> undropped_execution jr ldb pb connect R M t u
     \<Longrightarrow> undropped_execution jr ldb pb connect R M s u"
  by (simp add: undropped_execution_def)

section \<open>An execution with a pending read\<close>

lemma line_raft_orders: "raft_orders line_raft (\<lambda>_. True) line_nodes {}"
proof -
  have "length l = 0 \<or> length l = 1 \<or> length l = 2" if "prefix l demo_log" for l
    using prefix_length_le [OF that] by (simp add: demo_log_def numeral_2_eq_2 le_Suc_eq)
  then have "of_nat (length l) \<noteq> (- 1 :: u64)" if "prefix l demo_log" for l
    using that by fastforce
  then show ?thesis
    by (auto simp: raft_orders_def advances_def line_raft_def line_nodes_def ready_of_def stored_node_def no_ready_def)
qed

lemma line_start: "server_start (line_server l a d [] [])"
  by (simp add: server_start_def line_server_def line_peer_def host_ok_def local_peer_ok_def host_id_def
      host_db_path_def demo_member_def)

text \<open>A Get arrives and is proposed while the Put before it waits to be handed out.\<close>

lemma line_get_proposed:
  "undropped_execution line_raft mem_leveldb demo_codec (\<lambda>_. 0) (\<lambda>_. line_nodes) {}
     (line_server [demo_entry 1 1 ''p1,a1''] a d [] [])
     (line_server demo_log a d [new_Proposal 2 1 4 8] [])"
proof -
  let ?l = "[demo_entry 1 1 ''p1,a1'']" and ?t = "KvOpTask (mk_get ''a'') 4 8"
  have l: "prefix ?l demo_log"
    by (simp add: demo_log_def)
  have "KvOp (mk_get ''a'') 4 8 (line_server ?l a d [] []) = line_server ?l a d [] [?t]"
    by (simp add: KvOp_def RunInLoop_def line_server_def)
  with kv_arrives [of 8 "line_server ?l a d [] []" line_raft mem_leveldb demo_codec "\<lambda>_. 0" "mk_get ''a''" 4]
  have one: "server_step line_raft mem_leveldb demo_codec (\<lambda>_. 0) (line_server ?l a d [] []) (line_server ?l a d [] [?t])"
    by (simp add: held_def line_server_def line_peer_def ran_def peer_pending_def)
  have two: "server_step line_raft mem_leveldb demo_codec (\<lambda>_. 0) (line_server ?l a d [] [?t])
      (line_server demo_log a d [new_Proposal 2 1 4 8] [])"
    by (rule task_runs [of _ "[]" ?t "[]"])
      (simp_all add: line_server_def line_peer_def run_task_def KvOpCb_def mutable_local_peers_def with_peer_def
        ProposeKvOp_def IsLeader_def Term_def NextProposalIndex_def line_raft_def demo_log_def demo_codec_def
        demo_print_def)
  show ?thesis
    unfolding undropped_execution_def
    by (rule converse_rtranclp_into_rtranclp [OF _ r_into_rtranclp])
      (use line_visits [OF l] one two line_undropped in blast)+
qed

lemmas line_read_pending = line_get_proposed [of 0 "[]"]

section \<open>Properties\<close>

text \<open>
  C14: in every execution of a server in which the Raft node drops none of its proposals
  (\<open>undropped_execution\<close>) the proposal queue of each local peer is in log order and holds no
  position beyond the end of the peer's log, through changes of role and term, as long as terms grow
  and a leader's log does not shrink in its term (\<open>raft_orders\<close>): the state in which
  \<^verbatim>\<open>GetProposal\<close> finds exactly the right proposal never ends.
\<close>

theorem queues_stay_ordered:
  assumes "raft_orders jr led (R i) M" and "undropped_execution jr ldb pb connect R M s0 s"
    and "server_start s0" and "local_peers s i = Some p"
  shows "proposals_inv jr p"
  by (rule queue_ok_inv [OF undropped_execution_queue_ok [OF assms]])

theorem queues_stay_ordered_witness:
  "proposals_inv line_raft (line_peer demo_log 0 [] [new_Proposal 2 1 4 8])"
  by (rule queues_stay_ordered [OF line_raft_orders line_read_pending line_start line_server_peer])

text \<open>
  C7: reads are answered from their position in the log. Take any execution of a server in which
  the Raft node drops none of its proposals, up to a timer tick of a peer that is still leader. If the tick hands out, after entries that lie before
  it, the entry at the position of one of the peer's pending proposals, and the tick completes, then
  the closure of that proposal has run. If the entry is a Get, the response held at that moment the
  value that the key has after all earlier entries of the group's log, counted from the start of the
  server.
\<close>

theorem reads_linearised:
  assumes "leveldb_contract ldb view" and "raft_delivers jr applied LOG (R i)" and "raft_orders jr led (R i) M"
    and "server_start s0" and "undropped_execution jr ldb pb connect R M s0 s" and "visits R M s"
    and "local_peers s0 i = Some p0" and "applied (raw_node p0) = 0" and "local_peers s i = Some p"
    and "n = rn_Tick jr (raw_node p)" and "rn_HasReady jr n" and "rn_IsLeader jr (stored_node jr n)"
    and "rd_committed_entries (ready_of jr n) = es @ e # es'"
    and "q \<in> set (proposals p)" and "matches (entry_index e) (entry_term e) q"
    and "\<forall>e'\<in>set es. entry_before e' q" and "entry_op pb e = Some c"
    and "with_peer i (Tick jr ldb pb connect) p s = Inr s'"
  shows "\<exists>j h. e = LOG j \<and> (p_done q, h) \<in> set (runs s')
    \<and> (\<forall>k. c = SGet k \<longrightarrow> (\<exists>v. get_resp_opt (h (p_resp q)) = Some \<lparr>get_value = v\<rparr>
         \<and> replay pb (map LOG [0..<j]) (disk_contents view (kv_db p0)) k = Some v))"
  using tick_answers [OF assms] by blast

theorem reads_linearised_witness:
  "\<exists>s' h v. with_peer 1 (Tick line_raft mem_leveldb demo_codec (\<lambda>_. 0)) (line_peer demo_log 0 [] [new_Proposal 2 1 4 8])
       (line_server demo_log 0 [] [new_Proposal 2 1 4 8] []) = Inr s'
     \<and> (8, h) \<in> set (runs s') \<and> get_resp_opt (h 4) = Some \<lparr>get_value = v\<rparr>"
proof -
  let ?q = "new_Proposal 2 1 4 8"
  obtain s' where tick: "with_peer 1 (Tick line_raft mem_leveldb demo_codec (\<lambda>_. 0)) (line_peer demo_log 0 [] [?q])
       (line_server demo_log 0 [] [?q] []) = Inr s'"
    by (simp add: with_peer_def Tick_def HandleRaftReady_def line_raft_def demo_log_def line_server_def line_peer_def
        no_ready_def peer_eval demo_entry_def demo_codec_defs store_eval new_Proposal_def)
  have "\<exists>j h. demo_entry 1 2 ''ga'' = demo_log ! j \<and> (p_done ?q, h) \<in> set (runs s')
    \<and> (\<forall>k. SGet ''a'' = SGet k \<longrightarrow> (\<exists>v. get_resp_opt (h (p_resp ?q)) = Some \<lparr>get_value = v\<rparr>
         \<and> replay demo_codec (map ((!) demo_log) [0..<j])
             (disk_contents map_of (kv_db (line_peer [demo_entry 1 1 ''p1,a1''] 0 [] []))) k = Some v))"
    by (rule reads_linearised [OF mem_leveldb_contract line_raft_delivers line_raft_orders line_start line_read_pending
          line_visits(2) line_server_peer _ line_server_peer refl _ _ _ _ _ _ _ tick,
          where es = "[demo_entry 1 1 ''p1,a1'']" and es' = "[]"])
      (simp_all add: line_peer_def line_raft_def demo_log_def ready_of_def stored_node_def no_ready_def matches_def
        entry_before_def new_Proposal_def demo_entry_def entry_op_def demo_codec_defs)
  then show ?thesis
    using tick by (auto simp: new_Proposal_def)
qed

text \<open>
  What a peer has applied, every later read sees. If in some state of an execution in which no
  proposal was dropped a peer has been handed out an entry that writes a key, in particular if it has
  answered the client that wrote it, and later, being leader, it answers a Get of that key with no
  other write of the key between the two in the log, then the write was a Put and the answer is the
  value it wrote.
\<close>

theorem later_reads_see_write:
  assumes "leveldb_contract ldb view" and "raft_delivers jr applied LOG (R i)" and "raft_orders jr led (R i) M"
    and "server_start s0" and "undropped_execution jr ldb pb connect R M s0 s1" and "local_peers s1 i = Some p1"
    and "m < applied (raw_node p1)" and "written pb k (LOG m) = Some x"
    and "undropped_execution jr ldb pb connect R M s1 s" and "visits R M s"
    and "local_peers s0 i = Some p0" and "applied (raw_node p0) = 0" and "local_peers s i = Some p"
    and "n = rn_Tick jr (raw_node p)" and "rn_HasReady jr n" and "rn_IsLeader jr (stored_node jr n)"
    and "rd_committed_entries (ready_of jr n) = es @ e # es'"
    and "q \<in> set (proposals p)" and "matches (entry_index e) (entry_term e) q"
    and "\<forall>e'\<in>set es. entry_before e' q" and "entry_op pb e = Some (SGet k)"
    and "with_peer i (Tick jr ldb pb connect) p s = Inr s'"
    and "\<And>l. m < l \<Longrightarrow> l < applied (raw_node p) + length es \<Longrightarrow> written pb k (LOG l) = None"
  shows "\<exists>h v. x = Some v \<and> (p_done q, h) \<in> set (runs s') \<and> get_resp_opt (h (p_resp q)) = Some \<lparr>get_value = v\<rparr>"
proof -
  let ?j = "applied (raw_node p) + length es"
  have "m < ?j"
    using execution_applied [OF assms(2) undropped_execution_run [OF assms(9)] assms(6,13)] assms(7) by simp
  then have "last_written pb k (map LOG [0..<?j]) = Some x"
    using last_written_at [of m ?j pb k LOG x] assms(8,23) by blast
  then have "replay pb (map LOG [0..<?j]) (disk_contents view (kv_db p0)) k = x"
    by (simp add: replay_last_written)
  with tick_answers [OF assms(1-4) undropped_execution_trans [OF assms(5,9)] assms(10-22)] show ?thesis
    by auto
qed

theorem later_reads_see_write_witness:
  "\<exists>s' h. with_peer 1 (Tick line_raft mem_leveldb demo_codec (\<lambda>_. 0)) (line_peer demo_log 1 [(''a'', ''1'')] [new_Proposal 2 1 4 8])
       (line_server demo_log 1 [(''a'', ''1'')] [new_Proposal 2 1 4 8] []) = Inr s'
     \<and> (8, h) \<in> set (runs s') \<and> get_resp_opt (h 4) = Some \<lparr>get_value = ''1''\<rparr>"
proof -
  let ?q = "new_Proposal 2 1 4 8" and ?l = "[demo_entry 1 1 ''p1,a1'']" and ?d = "[(''a'', ''1'')]"
  let ?exec = "undropped_execution line_raft mem_leveldb demo_codec (\<lambda>_. 0) (\<lambda>_. line_nodes) {}"
  have l: "prefix ?l demo_log"
    by (simp add: demo_log_def)
  have tick1: "with_peer 1 (Tick line_raft mem_leveldb demo_codec (\<lambda>_. 0)) (line_peer ?l 0 [] []) (line_server ?l 0 [] [] [])
      = Inr (line_server ?l 1 ?d [] [])"
    by (simp add: with_peer_def Tick_def HandleRaftReady_def line_raft_def line_server_def line_peer_def
        no_ready_def peer_eval demo_entry_def demo_codec_defs store_eval)
  have "server_step line_raft mem_leveldb demo_codec (\<lambda>_. 0) (line_server ?l 0 [] [] []) (line_server ?l 1 ?d [] [])"
    by (rule timer_fires [OF _ line_server_peer tick1]) (simp add: line_server_def)
  then have one: "?exec (line_server ?l 0 [] [] []) (line_server ?l 1 ?d [] [])"
    unfolding undropped_execution_def by (intro r_into_rtranclp) (simp add: line_visits(2) [OF l] line_undropped)
  have two: "?exec (line_server ?l 1 ?d [] []) (line_server demo_log 1 ?d [?q] [])"
    by (rule line_get_proposed)
  obtain s' where tick: "with_peer 1 (Tick line_raft mem_leveldb demo_codec (\<lambda>_. 0)) (line_peer demo_log 1 ?d [?q])
       (line_server demo_log 1 ?d [?q] []) = Inr s'"
    by (simp add: with_peer_def Tick_def HandleRaftReady_def line_raft_def demo_log_def line_server_def line_peer_def
        no_ready_def peer_eval demo_entry_def demo_codec_defs store_eval new_Proposal_def)
  have "\<exists>h v. Some ''1'' = Some v \<and> (p_done ?q, h) \<in> set (runs s') \<and> get_resp_opt (h (p_resp ?q)) = Some \<lparr>get_value = v\<rparr>"
    by (rule later_reads_see_write [OF mem_leveldb_contract line_raft_delivers line_raft_orders line_start one line_server_peer
          _ _ two line_visits(2) line_server_peer _ line_server_peer refl _ _ _ _ _ _ _ tick,
          where m = 0 and k = "''a''" and es = "[]" and es' = "[]" and e = "demo_entry 1 2 ''ga''"])
      (simp_all add: line_peer_def line_raft_def demo_log_def ready_of_def stored_node_def no_ready_def matches_def
        entry_before_def new_Proposal_def demo_entry_def entry_op_def demo_codec_defs written_def)
  then show ?thesis
    using tick by (auto simp: new_Proposal_def)
qed

end
