(* ===== verification/Rpc_Objects.thy ===== *)
theory Rpc_Objects
  imports Services
begin

text \<open>
  Ownership of the objects that \<^verbatim>\<open>Peer::SendMsg2Peer\<close> creates for every Raft message, the RPC
  controller and the response, and that \<^verbatim>\<open>Peer::HandleSendMsg2Peer\<close> deletes when the call is
  over. Between the two they belong to the callback that the RPC layer holds; the layer runs a
  callback at most once.
\<close>

section \<open>The ownership invariant\<close>

fun call_objs :: "(obj_ptr \<times> obj_ptr) list \<Rightarrow> obj_ptr list" where
  "call_objs [] = []"
| "call_objs ((cntl, resp) # calls) = cntl # resp # call_objs calls"

lemma call_objs_append [simp]: "call_objs (xs @ ys) = call_objs xs @ call_objs ys"
  by (induction xs rule: call_objs.induct) simp_all

definition owned :: "'z net_scheme \<Rightarrow> obj_ptr list" where
  "owned s = call_objs (awaiting s)"

definition objects_ok :: "'z net_scheme \<Rightarrow> bool" where
  "objects_ok s \<longleftrightarrow> live_objs s = set (owned s) \<and> distinct (owned s) \<and> (\<forall>x\<in>set (owned s). x < next_obj s)"

lemma objects_ok_cong:
  assumes "next_obj s' = next_obj s" and "live_objs s' = live_objs s" and "awaiting s' = awaiting s"
  shows "objects_ok s' = objects_ok s"
  using assms by (simp add: objects_ok_def owned_def)

lemma GetClient_objects:
  assumes "GetClient connect h w addr tmo name create s = Inr (c, s')"
  shows "objects_ok s' = objects_ok s"
  using assms by (intro objects_ok_cong) (auto simp: GetClient_def Let_def split: option.splits if_splits)

lemma call_objects:
  "objects_ok s \<Longrightarrow> new_object s = (cntl, s1) \<Longrightarrow> new_object s1 = (resp, s2)
     \<Longrightarrow> objects_ok (s2\<lparr>sent := cs, awaiting := awaiting s2 @ [(cntl, resp)]\<rparr>)"
  by (force simp: objects_ok_def owned_def new_object_def less_Suc_eq)

lemma SendMsg2Peer_objects:
  assumes "SendMsg2Peer connect m (p, s) = Inr (p', s')" and "objects_ok s"
  shows "objects_ok s'"
proof -
  obtain addr c s1 cntl s2 resp s3 cs where
    g: "GetClient connect (msg_to m) (worker p) addr 300 [] True s = Inr (Some c, s1)"
    and "new_object s1 = (cntl, s2)" "new_object s2 = (resp, s3)"
    and "s' = s3\<lparr>sent := cs, awaiting := awaiting s3 @ [(cntl, resp)]\<rparr>"
    using assms(1) by (auto simp: SendMsg2Peer_def Let_def split: option.splits prod.splits)
  then show ?thesis
    using call_objects [of s1 cntl s2 resp s3 cs] GetClient_objects [OF g] assms(2) by simp
qed

lemma SendMsgs_objects:
  assumes "SendMsgs connect msgs (p, s) = Inr (p', s')" and "objects_ok s"
  shows "objects_ok s'"
proof -
  have "objects_ok (snd (p', s'))"
  proof (rule ofold_invariant [where I = "\<lambda>st. objects_ok (snd st)"])
    show "ofold (SendMsg2Peer connect) msgs (p, s) = Inr (p', s')"
      using assms(1) by (simp add: SendMsgs_def)
  next
    fix m st st'
    assume "objects_ok (snd st)" "SendMsg2Peer connect m st = Inr st'"
    then show "objects_ok (snd st')"
      using SendMsg2Peer_objects [of connect m "fst st" "snd st" "fst st'" "snd st'"] by simp
  qed (use assms(2) in simp)
  then show ?thesis
    by simp
qed

lemma ProcessEntries_objects:
  assumes "ProcessEntries jr ldb pb es (p, s) = Inr (p', s')"
  shows "objects_ok s' = objects_ok s"
  using ProcessEntries_frame [OF assms] by (intro objects_ok_cong) (cases s; cases s'; simp)+

lemma Tick_objects:
  assumes "Tick jr ldb pb connect (p, s) = Inr (p', s')" and "objects_ok s"
  shows "objects_ok s'"
proof -
  define q where "q = p\<lparr>raw_node := rn_Tick jr (raw_node p)\<rparr>"
  have run: "HandleRaftReady jr ldb pb connect (q, s) = Inr (p', s')"
    using assms by (simp add: Tick_def q_def)
  show ?thesis
  proof (cases "rn_HasReady jr (raw_node q)")
    case False
    then show ?thesis
      using run assms(2) by (auto simp: HandleRaftReady_def)
  next
    case True
    then show ?thesis
      using run assms(2) HandleRaftReady_stages [OF True, of ldb pb connect s]
      by (auto dest: SendMsgs_objects simp: ProcessEntries_objects)
  qed
qed

text \<open>The callback of an outstanding call deletes exactly the objects of that call.\<close>

lemma reply_objects:
  assumes "objects_ok s" and "awaiting s = xs @ (cntl, resp) # ys"
  shows "HandleSendMsg2Peer cntl resp (s\<lparr>awaiting := xs @ ys\<rparr>) =
      Inr (s\<lparr>awaiting := xs @ ys, live_objs := live_objs s - {resp} - {cntl}\<rparr>)"
    and "objects_ok (s\<lparr>awaiting := xs @ ys, live_objs := live_objs s - {resp} - {cntl}\<rparr>)"
  using assms
  by (auto simp: HandleSendMsg2Peer_def delete_object_def objects_ok_def owned_def)

lemma server_step_objects:
  assumes "server_step jr ldb pb connect s s'" and "objects_ok s"
  shows "objects_ok s'"
  using assms(1)
proof cases
  case (kv_arrives d req resp)
  with assms(2) objects_ok_cong [of s' s] show ?thesis
    by (simp add: KvOp_def RunInLoop_def)
next
  case (raft_arrives d req)
  with assms(2) objects_ok_cong [of s' s] show ?thesis
    by (auto simp: HandleRaftMsg_def RunInLoop_def split: if_splits)
next
  case (task_runs ts t us)
  then have "next_obj s' = next_obj s \<and> live_objs s' = live_objs s \<and> awaiting s' = awaiting s"
    by (cases t) (auto simp: run_task_def Run_def set_rejected_def elim!: KvOpCb_Inr HandleRaftMsgCb_Inr)
  with assms(2) objects_ok_cong [of s' s] show ?thesis
    by simp
next
  case (timer_fires i p)
  then obtain p' s1 where "Tick jr ldb pb connect (p, s) = Inr (p', s1)" "s' = s1\<lparr>local_peers := (local_peers s1)(i \<mapsto> p')\<rparr>"
    by (auto simp: with_peer_def)
  with Tick_objects [OF this(1) assms(2)] objects_ok_cong [of s' s1] show ?thesis
    by simp
next
  case (reply_arrives xs cntl resp ys)
  with reply_objects [OF assms(2) reply_arrives(1)] show ?thesis
    by simp
qed

section \<open>Properties\<close>

text \<open>
  C17: no leak and no double delete of RPC objects. In every state a server reaches, the objects that
  sending Raft messages has created and not deleted are exactly the controllers and responses of the
  calls still awaiting their reply, no two calls share one, and the callback of any outstanding call
  completes without deleting anything twice. When no call is outstanding, nothing is left.
\<close>

theorem rpc_objects_owned:
  assumes "server_start s0" and "(server_step jr ldb pb connect)\<^sup>*\<^sup>* s0 s"
  shows "live_objs s = set (owned s) \<and> distinct (owned s) \<and> (awaiting s = [] \<longrightarrow> live_objs s = {})
    \<and> (\<forall>xs cntl resp ys. awaiting s = xs @ (cntl, resp) # ys \<longrightarrow>
         HandleSendMsg2Peer cntl resp (s\<lparr>awaiting := xs @ ys\<rparr>) =
         Inr (s\<lparr>awaiting := xs @ ys, live_objs := live_objs s - {resp} - {cntl}\<rparr>))"
proof -
  have "objects_ok s0"
    using assms(1) by (simp add: server_start_def objects_ok_def owned_def)
  with assms(2) have ok: "objects_ok s"
    by (induction rule: rtranclp_induct) (auto intro: server_step_objects)
  then show ?thesis
    using reply_objects(1) [OF ok] by (auto simp: objects_ok_def owned_def)
qed

theorem rpc_objects_owned_witness:
  "\<exists>s. (server_step ping_raft mem_leveldb demo_codec (\<lambda>_. 0))\<^sup>*\<^sup>* (demo_server [1 \<mapsto> demo_added 1]) s
     \<and> sent s \<noteq> [] \<and> live_objs s = set (owned s)"
proof -
  obtain s c where s: "server_step ping_raft mem_leveldb demo_codec (\<lambda>_. 0) (demo_server [1 \<mapsto> demo_added 1]) s"
    "(c, envelope (demo_added 1) (demo_message 2)) \<in> set (sent s)"
    using ping_step by blast
  have run: "(server_step ping_raft mem_leveldb demo_codec (\<lambda>_. 0))\<^sup>*\<^sup>* (demo_server [1 \<mapsto> demo_added 1]) s"
    using s(1) by (rule r_into_rtranclp)
  show ?thesis
    using rpc_objects_owned [OF demo_server_start [of 1] run] run s(2) by auto
qed

end
