(* ===== verification/Cluster.thy ===== *)
theory Cluster
  imports Services
begin

text \<open>
  Several servers together. A Raft message that arrives at a server is one that a server of the
  cluster has handed to its RPC layer for that host; it may arrive late, repeatedly, out of order or
  never. With a member configuration that names existing peers, no message of the cluster ends in
  one of the \<^verbatim>\<open>JLOG_FATAL\<close>s that guard the receiving side.
\<close>

section \<open>What a step sends and keeps\<close>

lemma server_step_sent:
  assumes "server_step jr ldb pb connect s s'" and "(c, r) \<in> set (sent s')"
  shows "(\<exists>c'. (c', r) \<in> set (sent s)) \<or>
    (\<exists>i p m. local_peers s i = Some p \<and> r = envelope p m \<and> msg_to m \<in> fst ` set (peers p))"
  using assms(1)
proof cases
  case (kv_arrives d req resp)
  with assms(2) show ?thesis
    by (auto simp: KvOp_def held_arrival)
next
  case (raft_arrives d req)
  with assms(2) show ?thesis
    by (auto simp: HandleRaftMsg_def held_arrival split: if_splits)
next
  case (task_runs ts t us)
  with assms(2) show ?thesis
    using run_task_account [OF task_runs(2)] by auto
next
  case (timer_fires i p)
  then obtain p' s1 where T: "Tick jr ldb pb connect (p, s) = Inr (p', s1)"
    and s': "s' = s1\<lparr>local_peers := (local_peers s1)(i \<mapsto> p')\<rparr>"
    by (auto simp: with_peer_def)
  from Tick_frame [OF T] obtain ms where ms: "map snd (sent s1) = map snd (sent s) @ map (envelope p) ms"
    "\<forall>m\<in>set ms. msg_to m \<in> fst ` set (peers p)"
    by blast
  have "r \<in> set (map snd (sent s1))"
    using assms(2) by (force simp: s')
  with ms timer_fires(2) show ?thesis
    unfolding ms(1) by force
next
  case (reply_arrives xs cntl resp ys)
  with assms(2) show ?thesis
    by (auto simp: HandleSendMsg2Peer_def delete_object_def split: if_splits)
qed

lemma server_step_dom:
  assumes "server_step jr ldb pb connect s s'"
  shows "dom (local_peers s) \<subseteq> dom (local_peers s')"
  using assms
proof cases
  case (task_runs ts t us)
  then show ?thesis
    by (cases t) (auto simp: run_task_def elim!: KvOpCb_Inr HandleRaftMsgCb_Inr)
next
  case (timer_fires i p)
  then obtain p' s1 where T: "Tick jr ldb pb connect (p, s) = Inr (p', s1)"
    and s': "s' = s1\<lparr>local_peers := (local_peers s1)(i \<mapsto> p')\<rparr>"
    by (auto simp: with_peer_def)
  have "local_peers s1 = local_peers s"
    using Tick_frame [OF T] by (intro net_more_server) simp
  then show ?thesis
    by (auto simp: s')
qed (auto simp: KvOp_def RunInLoop_def HandleRaftMsg_def HandleSendMsg2Peer_def delete_object_def split: if_splits)

section \<open>Clusters\<close>

type_synonym ('rn, 'db, 'ms) cluster = "HostId \<rightharpoonup> ('rn, 'db, 'ms) server"

text \<open>A step of one server, at which only Raft messages sent to it within the cluster arrive.\<close>

inductive cluster_step :: "('rn, 'ms) jraft \<Rightarrow> 'db leveldb \<Rightarrow> pb_codec \<Rightarrow> (RpcClient \<Rightarrow> int)
    \<Rightarrow> ('rn, 'db, 'ms) cluster \<Rightarrow> ('rn, 'db, 'ms) cluster \<Rightarrow> bool"
  for jr ldb pb connect where
  acts: "C h = Some s \<Longrightarrow> server_step jr ldb pb connect s s' \<Longrightarrow>
    (\<And>req d. RaftMsgTask req d \<in> set (loop_tasks s') \<Longrightarrow>
       RaftMsgTask req d \<in> set (loop_tasks s) \<or>
       (\<exists>h' t c. C h' = Some t \<and> (c, req) \<in> set (sent t) \<and> msg_to (raft_msg req) = h)) \<Longrightarrow>
    cluster_step jr ldb pb connect C (C(h \<mapsto> s'))"

text \<open>Every member that a peer knows is a local peer of the server with that host.\<close>

definition resolves :: "('rn, 'db, 'ms) cluster \<Rightarrow> HostId \<Rightarrow> PeerId \<Rightarrow> bool" where
  "resolves C h i \<longleftrightarrow> (\<exists>t q. C h = Some t \<and> local_peers t i = Some q)"

definition tables_ok :: "('rn, 'db, 'ms) cluster \<Rightarrow> bool" where
  "tables_ok C \<longleftrightarrow> (\<forall>h s i p h' m. C h = Some s \<longrightarrow> local_peers s i = Some p
     \<longrightarrow> map_of (peers p) h' = Some m \<longrightarrow> resolves C h' (gm_peer_id m))"

definition cluster_start :: "('rn, 'db, 'ms) cluster \<Rightarrow> bool" where
  "cluster_start C \<longleftrightarrow> (\<forall>h s. C h = Some s \<longrightarrow> server_start s \<and> host_id s = h) \<and> tables_ok C"

definition cluster_inv :: "('rn, 'db, 'ms) cluster \<Rightarrow> bool" where
  "cluster_inv C \<longleftrightarrow> tables_ok C \<and> (\<forall>h s. C h = Some s \<longrightarrow> server_inv s \<and> host_id s = h
     \<and> (\<forall>c r. (c, r) \<in> set (sent s) \<longrightarrow> resolves C (msg_to (raft_msg r)) (meta_peer_id (to_peer r)))
     \<and> (\<forall>req d. RaftMsgTask req d \<in> set (loop_tasks s) \<longrightarrow> resolves C h (meta_peer_id (to_peer req))))"

lemma cluster_start_inv: "cluster_start C \<Longrightarrow> cluster_inv C"
  by (auto simp: cluster_start_def cluster_inv_def server_start_inv) (auto simp: server_start_def)

lemma peers_keptD:
  assumes "peers_kept s s'" and "local_peers s' i = Some p"
  shows "\<exists>p0. local_peers s i = Some p0 \<and> peers p0 = peers p"
  using assms by (fastforce simp: peers_kept_def)

lemma resolves_step:
  assumes "C h = Some s" and "dom (local_peers s) \<subseteq> dom (local_peers s')" and "resolves C h' i"
  shows "resolves (C(h \<mapsto> s')) h' i"
  using assms by (fastforce simp: resolves_def dom_def)

lemma cluster_step_inv:
  assumes "cluster_step jr ldb pb connect C C'" and "cluster_inv C"
  shows "cluster_inv C'"
  using assms(1)
proof cases
  case (acts h s s')
  note inv = server_step_inv [OF acts(3)] and keep = resolves_step [of C h s s', OF acts(2) server_step_dom [OF acts(3)]]
  have s: "server_inv s" "host_id s = h"
    using assms(2) acts(2) by (auto simp: cluster_inv_def)
  have kept: "peers_kept s s'"
    using inv s(1) by blast
  have tables: "tables_ok C"
    using assms(2) by (simp add: cluster_inv_def)
  have "tables_ok C'"
    unfolding tables_ok_def
  proof (intro allI impI)
    fix h1 s1 i p h2 m
    assume 1: "C' h1 = Some s1" "local_peers s1 i = Some p" "map_of (peers p) h2 = Some m"
    have "\<exists>s0 p0. C h1 = Some s0 \<and> local_peers s0 i = Some p0 \<and> peers p0 = peers p"
    proof (cases "h1 = h")
      case True
      then have "s1 = s'"
        using 1(1) acts(1) by simp
      then show ?thesis
        using peers_keptD [OF kept] 1(2) acts(2) True by blast
    next
      case False
      then have "C h1 = Some s1"
        using 1(1) acts(1) by simp
      then show ?thesis
        using 1(2) by blast
    qed
    then obtain s0 p0 where "C h1 = Some s0" "local_peers s0 i = Some p0" "peers p0 = peers p"
      by blast
    then have "resolves C h2 (gm_peer_id m)"
      using tables 1(3) unfolding tables_ok_def by metis
    then show "resolves C' h2 (gm_peer_id m)"
      using keep acts(1) by blast
  qed
  moreover have "server_inv s' \<and> host_id s' = h"
    using inv s kept by (auto simp: host_id_def peers_kept_def)
  moreover have "resolves C (msg_to (raft_msg r)) (meta_peer_id (to_peer r))" if "(c, r) \<in> set (sent s')" for c r
    using server_step_sent [OF acts(3) that]
  proof (elim disjE exE conjE)
    fix c' assume "(c', r) \<in> set (sent s)"
    then show ?thesis
      using assms(2) acts(2) by (auto simp: cluster_inv_def)
  next
    fix i p m assume p: "local_peers s i = Some p" "r = envelope p m" "msg_to m \<in> fst ` set (peers p)"
    then obtain t where t: "map_of (peers p) (msg_to m) = Some t"
      by (metis map_of_eq_None_iff not_None_eq)
    have "resolves C (msg_to m) (gm_peer_id t)"
      using tables acts(2) p(1) t unfolding tables_ok_def by blast
    with t p(2) show ?thesis
      by (simp add: envelope_def)
  qed
  moreover have "resolves C h (meta_peer_id (to_peer req))" if "RaftMsgTask req d \<in> set (loop_tasks s')" for req d
    using acts(4) [OF that] assms(2) acts(2) by (fastforce simp: cluster_inv_def)
  ultimately show ?thesis
    using assms(2) keep unfolding acts(1) cluster_inv_def by (auto split: if_splits)
qed

lemma cluster_reachable_inv:
  assumes "(cluster_step jr ldb pb connect)\<^sup>*\<^sup>* Ci C" and "cluster_start Ci"
  shows "cluster_inv C"
  using assms by (induction rule: rtranclp_induct) (auto intro: cluster_start_inv cluster_step_inv)

lemma sent_message_accepted:
  assumes "cluster_inv C" and "C h = Some s" and "(c, r) \<in> set (sent s)"
  shows "\<exists>t. C (msg_to (raft_msg r)) = Some t \<and> HandleRaftMsg r d t = Inr (RunInLoop (RaftMsgTask r d) t)"
proof -
  obtain t where t: "C (msg_to (raft_msg r)) = Some t"
    using assms by (fastforce simp: cluster_inv_def resolves_def)
  then have "host_id t = msg_to (raft_msg r)" "routed s"
    using assms(1,2) by (auto simp: cluster_inv_def server_inv_def)
  with t assms(3) show ?thesis
    by (force simp: routed_def HandleRaftMsg_def)
qed

section \<open>Properties\<close>

text \<open>
  C16: no Raft message of a cluster is lost at a guard. Let every member that a peer knows be a local
  peer of the server with that host when the cluster starts. Then in every state it reaches, every
  message a server has sent is accepted by the server of its destination host, however often and
  whenever it arrives, and the callback of every accepted message returns after stepping the
  addressed peer: neither the test for the host nor the test for the peer ever stops a server.
\<close>

theorem cluster_messages_handled:
  assumes "cluster_start Ci" and "(cluster_step jr ldb pb connect)\<^sup>*\<^sup>* Ci C"
  shows "(\<forall>h s c r d. C h = Some s \<and> (c, r) \<in> set (sent s) \<longrightarrow>
      (\<exists>t. C (msg_to (raft_msg r)) = Some t \<and> HandleRaftMsg r d t = Inr (RunInLoop (RaftMsgTask r d) t)))
    \<and> (\<forall>h s req d. C h = Some s \<and> RaftMsgTask req d \<in> set (loop_tasks s) \<longrightarrow>
      (\<exists>s' p. HandleRaftMsgCb jr req d s = Inr s' \<and> local_peers s (meta_peer_id (to_peer req)) = Some p
         \<and> local_peers s' (meta_peer_id (to_peer req)) =
             Some (p\<lparr>raw_node := snd (rn_Step jr (raw_node p) (raft_msg req))\<rparr>)))"
proof -
  have inv: "cluster_inv C"
    by (rule cluster_reachable_inv [OF assms(2,1)])
  have "\<exists>t. C (msg_to (raft_msg r)) = Some t \<and> HandleRaftMsg r d t = Inr (RunInLoop (RaftMsgTask r d) t)"
    if "C h = Some s" "(c, r) \<in> set (sent s)" for h s c r d
    by (rule sent_message_accepted [OF inv that])
  moreover have "\<exists>s' p. HandleRaftMsgCb jr req d s = Inr s' \<and> local_peers s (meta_peer_id (to_peer req)) = Some p
      \<and> local_peers s' (meta_peer_id (to_peer req)) =
          Some (p\<lparr>raw_node := snd (rn_Step jr (raw_node p) (raft_msg req))\<rparr>)"
    if task: "C h = Some s" "RaftMsgTask req d \<in> set (loop_tasks s)" for h s req d
  proof -
    obtain p where "local_peers s (meta_peer_id (to_peer req)) = Some p"
      using inv task by (fastforce simp: cluster_inv_def resolves_def)
    then show ?thesis
      by (auto simp: HandleRaftMsgCb_def with_peer_def mutable_local_peers_def guard_defs Step_def Let_def
          split: prod.splits)
  qed
  ultimately show ?thesis
    by blast
qed

text \<open>Two servers, each with peer 1 and the same member table.\<close>

definition demo_cluster :: "(solo, (bytes \<times> bytes) list, Snapshot) cluster" where
  "demo_cluster = [1 \<mapsto> demo_server [1 \<mapsto> demo_added 1],
     2 \<mapsto> demo_server [1 \<mapsto> demo_added 1\<lparr>self := (self (demo_added 1))\<lparr>gm_host_id := 2\<rparr>\<rparr>]
       \<lparr>host_opt := \<lparr>ho_host_id = 2, ho_worker = 0, ho_db_path = ''host'', ho_storage = None\<rparr>\<rparr>]"

lemma demo_cluster_start: "cluster_start demo_cluster"
  by (auto simp: cluster_start_def demo_cluster_def server_start_def host_ok_def local_peer_ok_def members_ok_def
      tables_ok_def resolves_def demo_server_def demo_added_def host_id_def host_db_path_def split: if_splits)

theorem cluster_messages_handled_witness:
  "\<exists>C t. (cluster_step ping_raft mem_leveldb demo_codec (\<lambda>_. 0))\<^sup>*\<^sup>* demo_cluster C \<and> C 2 = Some t
     \<and> HandleRaftMsg (envelope (demo_added 1) (demo_message 2)) 3 t
         = Inr (RunInLoop (RaftMsgTask (envelope (demo_added 1) (demo_message 2)) 3) t)"
proof -
  obtain s c where s: "server_step ping_raft mem_leveldb demo_codec (\<lambda>_. 0) (demo_server [1 \<mapsto> demo_added 1]) s"
    "(c, envelope (demo_added 1) (demo_message 2)) \<in> set (sent s)" "loop_tasks s = []"
    using ping_step by blast
  have one: "demo_cluster 1 = Some (demo_server [1 \<mapsto> demo_added 1])"
    by (simp add: demo_cluster_def)
  have "cluster_step ping_raft mem_leveldb demo_codec (\<lambda>_. 0) demo_cluster (demo_cluster(1 \<mapsto> s))"
    by (rule acts, rule one, rule s(1)) (simp add: s(3))
  then have run: "(cluster_step ping_raft mem_leveldb demo_codec (\<lambda>_. 0))\<^sup>*\<^sup>* demo_cluster (demo_cluster(1 \<mapsto> s))"
    by blast
  have "msg_to (raft_msg (envelope (demo_added 1) (demo_message 2))) = 2"
    by (simp add: envelope_def demo_message_def Let_def)
  moreover have "(demo_cluster(1 \<mapsto> s)) 1 = Some s"
    by simp
  ultimately show ?thesis
    using cluster_messages_handled [OF demo_cluster_start run] run s(2) by metis
qed

end
