(* ===== verification/Cluster_Runs.thy ===== *)
theory Cluster_Runs
  imports Cluster Replication Rpc_Objects
begin

text \<open>
  Runs of a whole cluster. Every run of the cluster is, seen from one of its servers, an execution
  of that server, so what holds of all executions of a server holds of the servers of a cluster. The
  main result is that a cluster whose surroundings behave never stops: no event that can occur at
  one of its servers ends in a \<^verbatim>\<open>JLOG_FATAL\<close> or in undefined behaviour.
\<close>

section \<open>From a cluster to its servers\<close>

text \<open>The Raft node of the local peer \<open>i\<close> of host \<open>h\<close> stays in \<open>R h i\<close>.\<close>

definition cluster_visits :: "(HostId \<Rightarrow> PeerId \<Rightarrow> 'rn set) \<Rightarrow> ('rn, 'db, 'ms) cluster \<Rightarrow> bool" where
  "cluster_visits R C \<longleftrightarrow> (\<forall>h s. C h = Some s \<longrightarrow> visits (R h) UNIV s)"

definition cluster_execution :: "('rn, 'ms) jraft \<Rightarrow> 'db leveldb \<Rightarrow> pb_codec \<Rightarrow> (RpcClient \<Rightarrow> int)
    \<Rightarrow> (HostId \<Rightarrow> PeerId \<Rightarrow> 'rn set) \<Rightarrow> ('rn, 'db, 'ms) cluster \<Rightarrow> ('rn, 'db, 'ms) cluster \<Rightarrow> bool" where
  "cluster_execution jr ldb pb connect R =
     (\<lambda>C C'. cluster_visits R C \<and> cluster_step jr ldb pb connect C C')\<^sup>*\<^sup>*"

lemma cluster_execution_reachable:
  "cluster_execution jr ldb pb connect R Ci C \<Longrightarrow> (cluster_step jr ldb pb connect)\<^sup>*\<^sup>* Ci C"
  unfolding cluster_execution_def by (rule rtranclp_mono [THEN predicate2D, rotated]) auto

lemma cluster_projects:
  assumes "cluster_execution jr ldb pb connect R Ci C" and "C h = Some s"
  shows "\<exists>s0. Ci h = Some s0 \<and> execution jr ldb pb connect (R h) UNIV s0 s"
  using assms unfolding cluster_execution_def
proof (induction arbitrary: s rule: rtranclp_induct)
  case base
  then show ?case
    by (simp add: execution_def)
next
  case (step C C')
  from step.hyps(2) have visits: "cluster_visits R C" and "cluster_step jr ldb pb connect C C'"
    by simp_all
  from this(2) show ?case
  proof cases
    case (acts h' t t')
    show ?thesis
    proof (cases "h' = h")
      case True
      then have s: "s = t'" "C h = Some t"
        using step.prems acts(1,2) by simp_all
      from step.IH [OF s(2)] obtain s0 where s0: "Ci h = Some s0" "execution jr ldb pb connect (R h) UNIV s0 t"
        by blast
      have "visits (R h) UNIV t"
        using visits s(2) by (simp add: cluster_visits_def)
      with s0 acts(3) s(1) show ?thesis
        by (auto simp: execution_def intro: rtranclp.rtrancl_into_rtrancl)
    next
      case False
      then have "C h = Some s"
        using step.prems acts(1) by simp
      then show ?thesis
        by (rule step.IH)
    qed
  qed
qed

section \<open>What a run of a server keeps\<close>

lemma server_step_timers:
  assumes "server_step jr ldb pb connect s s'"
  shows "timers s' = timers s"
  using assms
proof cases
  case (task_runs ts t us)
  then show ?thesis
    by (cases t) (auto simp: run_task_def Run_def set_rejected_def elim!: KvOpCb_Inr HandleRaftMsgCb_Inr)
next
  case (timer_fires i p)
  then obtain p' s1 where T: "Tick jr ldb pb connect (p, s) = Inr (p', s1)"
    and s': "s' = s1\<lparr>local_peers := (local_peers s1)(i \<mapsto> p')\<rparr>"
    by (auto simp: with_peer_def)
  have "timers s1 = timers s"
    using Tick_frame [OF T] by (intro net_more_server) simp
  then show ?thesis
    by (simp add: s')
qed (auto simp: KvOp_def RunInLoop_def HandleRaftMsg_def HandleSendMsg2Peer_def delete_object_def split: if_splits)

lemma reachable_timers_peers:
  assumes "(server_step jr ldb pb connect)\<^sup>*\<^sup>* s0 s"
  shows "timers s = timers s0 \<and> dom (local_peers s0) \<subseteq> dom (local_peers s)"
  using assms by (induction rule: rtranclp_induct) (use server_step_timers server_step_dom in fastforce)+

lemma reachable_objects:
  assumes "server_start s0" and "(server_step jr ldb pb connect)\<^sup>*\<^sup>* s0 s"
  shows "objects_ok s"
proof -
  have "objects_ok s0"
    using assms(1) by (simp add: server_start_def objects_ok_def owned_def)
  with assms(2) show ?thesis
    by (induction rule: rtranclp_induct) (auto intro: server_step_objects)
qed

lemma peer_move_peers: "peer_move jr ldb pb connect M p p' \<Longrightarrow> peers p' = peers p"
proof (induction rule: peer_move.induct)
  case (steps m p e p')
  then show ?case
    by (auto simp: Step_def split: prod.splits)
qed (auto dest: ProposeKvOp_frame Tick_frame)

lemma execution_peers_table:
  assumes "execution jr ldb pb connect R M s0 s" and "local_peers s i = Some p"
  shows "\<exists>p0. local_peers s0 i = Some p0 \<and> peers p = peers p0"
  by (rule execution_peers [OF assms(1) _ _ assms(2),
        where I = "\<lambda>i p. \<exists>p0. local_peers s0 i = Some p0 \<and> peers p = peers p0"])
    (auto dest: peer_move_peers)

section \<open>Every event is handled\<close>

text \<open>
  The events that can occur at a server: a queued callback runs, a timer fires, the reply to a call
  comes back. \<open>handles_all\<close> says that each of them completes.
\<close>

definition handles_all :: "('rn, 'ms) jraft \<Rightarrow> 'db leveldb \<Rightarrow> pb_codec \<Rightarrow> (RpcClient \<Rightarrow> int)
    \<Rightarrow> ('rn, 'db, 'ms) server \<Rightarrow> bool" where
  "handles_all jr ldb pb connect s \<longleftrightarrow>
     (\<forall>ts t us. loop_tasks s = ts @ t # us \<longrightarrow> (\<exists>s'. run_task jr pb t (s\<lparr>loop_tasks := ts @ us\<rparr>) = Inr s')) \<and>
     (\<forall>i\<in>set (timers s). \<exists>p s'. local_peers s i = Some p \<and> with_peer i (Tick jr ldb pb connect) p s = Inr s') \<and>
     (\<forall>xs cntl resp ys. awaiting s = xs @ (cntl, resp) # ys \<longrightarrow>
        (\<exists>s'. HandleSendMsg2Peer cntl resp (s\<lparr>awaiting := xs @ ys\<rparr>) = Inr s'))"

text \<open>The surroundings: the database reports no I/O errors and connections open.\<close>

definition surroundings_ok :: "'db leveldb \<Rightarrow> ('db \<Rightarrow> bytes \<rightharpoonup> bytes) \<Rightarrow> (RpcClient \<Rightarrow> int) \<Rightarrow> bool" where
  "surroundings_ok ldb view connect \<longleftrightarrow> leveldb_contract ldb view \<and> leveldb_reliable ldb view
     \<and> (\<forall>c. connect c = 0)"

text \<open>A node of the set sends its messages to members of the group only.\<close>

definition raft_addresses :: "('rn, 'ms) jraft \<Rightarrow> HostId set \<Rightarrow> 'rn set \<Rightarrow> bool" where
  "raft_addresses jr H R \<longleftrightarrow> (\<forall>n\<in>R. \<forall>m\<in>set (rd_messages (ready_of jr (rn_Tick jr n))). msg_to m \<in> H)"

lemma run_task_returns:
  assumes "\<And>req r d. t = KvOpTask req r d \<Longrightarrow> SerializeToString pb req \<noteq> None" and "local_peers s 1 \<noteq> None"
    and "\<And>req d. t = RaftMsgTask req d \<Longrightarrow> local_peers s (meta_peer_id (to_peer req)) \<noteq> None"
  shows "\<exists>s'. run_task jr pb t s = Inr s'"
proof (cases t)
  case (KvOpTask req r d)
  obtain x where "SerializeToString pb req = Some x"
    using assms(1) [OF KvOpTask] by blast
  with assms(2) show ?thesis
    by (auto simp: KvOpTask run_task_def KvOpCb_def with_peer_def mutable_local_peers_def ProposeKvOp_def Let_def)
next
  case (RaftMsgTask req d)
  with assms(3) show ?thesis
    by (auto simp: run_task_def HandleRaftMsgCb_def with_peer_def mutable_local_peers_def Step_def Let_def
        split: prod.splits)
qed

lemma Tick_returns:
  assumes "surroundings_ok ldb view connect" and "raw_node p \<in> R" and "raft_delivers jr applied LOG R"
    and "raft_addresses jr (fst ` set (peers p)) R" and "follows view pb applied LOG m p"
    and "\<And>n. log_legal pb (map LOG [0..<n]) m"
  shows "\<exists>st. Tick jr ldb pb connect (p, s) = Inr st"
proof (cases "rn_HasReady jr (rn_Tick jr (raw_node p))")
  case True
  let ?p = "p\<lparr>raw_node := rn_Tick jr (raw_node p)\<rparr>" and ?a = "applied (raw_node p)"
  define rd where "rd = ready_of jr (raw_node ?p)"
  note env = assms(1) [unfolded surroundings_ok_def]
  obtain k where k: "rd_committed_entries rd = map LOG [?a..<?a + k]"
    using assms(2,3) True unfolding raft_delivers_def rd_def by auto
  have "map LOG [0..<?a + k] = map LOG [0..<?a] @ rd_committed_entries rd"
    by (simp only: k upt_add_eq_append [OF le0] map_append)
  then have legal: "log_legal pb (rd_committed_entries rd) (disk_contents view (kv_db ?p))"
    using assms(6) [of "?a + k"] assms(5) by (simp add: log_legal_append follows_def)
  have known: "\<forall>m\<in>set (rd_messages rd). msg_to m \<in> fst ` set (peers ?p)"
    using assms(2,4) by (simp add: raft_addresses_def rd_def)
  have ready: "rn_HasReady jr (raw_node ?p)"
    using True by simp
  have "\<exists>st. HandleRaftReady jr ldb pb connect (?p, s) = Inr st"
    by (rule HandleRaftReady_returns [OF _ _ _ ready rd_def known legal, where s = s and ldb = ldb and connect = connect])
      (use env in simp_all)
  then show ?thesis
    by (simp add: Tick_def)
qed (simp add: Tick_def HandleRaftReady_def)

text \<open>
  A cluster as it starts: the member tables name existing peers; every server has the peer 1 that the
  client service asks for, and timers of its own peers only; the nodes have handed out nothing, and
  every beginning of the log of peer \<open>i\<close> on host \<open>h\<close> can be applied to the peer's store.
\<close>

definition healthy_start :: "('db \<Rightarrow> bytes \<rightharpoonup> bytes) \<Rightarrow> pb_codec \<Rightarrow> ('rn \<Rightarrow> nat)
    \<Rightarrow> (HostId \<Rightarrow> PeerId \<Rightarrow> nat \<Rightarrow> Entry) \<Rightarrow> ('rn, 'db, 'ms) cluster \<Rightarrow> bool" where
  "healthy_start view pb applied LOG Ci \<longleftrightarrow> cluster_start Ci \<and> (\<forall>h s. Ci h = Some s \<longrightarrow>
     local_peers s 1 \<noteq> None \<and> set (timers s) \<subseteq> dom (local_peers s) \<and>
     (\<forall>i p. local_peers s i = Some p \<longrightarrow> applied (raw_node p) = 0
        \<and> (\<forall>n. log_legal pb (map (LOG h i) [0..<n]) (disk_contents view (kv_db p)))))"

text \<open>
  The Raft library, for the nodes of a run: it hands out the entries of the logs and addresses
  members only.
\<close>

definition raft_ok :: "('rn, 'ms) jraft \<Rightarrow> ('rn \<Rightarrow> nat) \<Rightarrow> (HostId \<Rightarrow> PeerId \<Rightarrow> nat \<Rightarrow> Entry)
    \<Rightarrow> (HostId \<Rightarrow> PeerId \<Rightarrow> 'rn set) \<Rightarrow> ('rn, 'db, 'ms) cluster \<Rightarrow> bool" where
  "raft_ok jr applied LOG R Ci \<longleftrightarrow> (\<forall>h s i p. Ci h = Some s \<longrightarrow> local_peers s i = Some p \<longrightarrow>
     raft_delivers jr applied (LOG h i) (R h i) \<and> raft_addresses jr (fst ` set (peers p)) (R h i))"

lemma timer_returns:
  assumes "surroundings_ok ldb view connect" and "healthy_start view pb applied LOG Ci"
    and "raft_ok jr applied LOG R Ci" and "cluster_execution jr ldb pb connect R Ci C" and "cluster_visits R C"
    and "C h = Some s" and "i \<in> set (timers s)"
  shows "\<exists>p s'. local_peers s i = Some p \<and> with_peer i (Tick jr ldb pb connect) p s = Inr s'"
proof -
  obtain s0 where s0: "Ci h = Some s0" and run: "execution jr ldb pb connect (R h) UNIV s0 s"
    using cluster_projects [OF assms(4,6)] by blast
  note keep = reachable_timers_peers [OF execution_reachable [OF run]]
  note start = assms(2) [unfolded healthy_start_def, THEN conjunct2, rule_format, OF s0]
  have "i \<in> set (timers s0)"
    using keep assms(7) by simp
  then have "i \<in> dom (local_peers s)"
    using keep start by blast
  then obtain p where p: "local_peers s i = Some p"
    by blast
  then obtain p0 where p0: "local_peers s0 i = Some p0" "peers p = peers p0"
    using execution_peers_table [OF run] by blast
  have raft: "raft_delivers jr applied (LOG h i) (R h i)" "raft_addresses jr (fst ` set (peers p)) (R h i)"
    using assms(3) s0 p0 by (auto simp: raft_ok_def)
  have "follows view pb applied (LOG h i) (disk_contents view (kv_db p0)) p"
    using execution_follows [OF _ raft(1) run p0(1) _ p] start p0(1) assms(1) by (simp add: surroundings_ok_def)
  moreover have "raw_node p \<in> R h i"
    using assms(5,6) p by (auto simp: cluster_visits_def visits_def)
  ultimately have "\<exists>st. Tick jr ldb pb connect (p, s) = Inr st"
    using Tick_returns [OF assms(1) _ raft] start p0(1) by blast
  with p show ?thesis
    by (auto simp: with_peer_def)
qed

lemma task_returns:
  assumes "cluster_start Ci" and "cluster_execution jr ldb pb connect R Ci C" and s: "C h = Some s"
    and "\<forall>h s. Ci h = Some s \<longrightarrow> local_peers s 1 \<noteq> None"
    and "\<And>req r d. KvOpTask req r d \<in> set (loop_tasks s) \<Longrightarrow> SerializeToString pb req \<noteq> None"
    and t: "loop_tasks s = ts @ t # us"
  shows "\<exists>s'. run_task jr pb t (s\<lparr>loop_tasks := ts @ us\<rparr>) = Inr s'"
proof (rule run_task_returns)
  obtain s0 where s0: "Ci h = Some s0" and run: "execution jr ldb pb connect (R h) UNIV s0 s"
    using cluster_projects [OF assms(2) s] by blast
  have "local_peers s 1 \<noteq> None"
    using reachable_timers_peers [OF execution_reachable [OF run]] assms(4) s0 by blast
  then show "local_peers (s\<lparr>loop_tasks := ts @ us\<rparr>) 1 \<noteq> None"
    by simp
next
  fix req d
  assume "t = RaftMsgTask req d"
  then have "RaftMsgTask req d \<in> set (loop_tasks s)"
    using t by simp
  then have "resolves C h (meta_peer_id (to_peer req))"
    using cluster_reachable_inv [OF cluster_execution_reachable [OF assms(2)] assms(1)] s
    unfolding cluster_inv_def by blast
  then show "local_peers (s\<lparr>loop_tasks := ts @ us\<rparr>) (meta_peer_id (to_peer req)) \<noteq> None"
    using s by (auto simp: resolves_def)
qed (use assms(5) t in \<open>metis in_set_conv_decomp\<close>)

lemma reply_returns:
  assumes "cluster_start Ci" and "cluster_execution jr ldb pb connect R Ci C" and "C h = Some s"
    and "awaiting s = xs @ (cntl, resp) # ys"
  shows "\<exists>s'. HandleSendMsg2Peer cntl resp (s\<lparr>awaiting := xs @ ys\<rparr>) = Inr s'"
proof -
  obtain s0 where s0: "Ci h = Some s0" and run: "execution jr ldb pb connect (R h) UNIV s0 s"
    using cluster_projects [OF assms(2,3)] by blast
  have "objects_ok s"
    using reachable_objects [OF _ execution_reachable [OF run]] assms(1) s0 by (simp add: cluster_start_def)
  from reply_objects(1) [OF this assms(4)] show ?thesis
    by blast
qed

section \<open>Properties\<close>

text \<open>
  C5: a cluster whose surroundings behave never stops. Let the databases report no I/O errors,
  connections open, the logs hold only entries that can be applied (no Get of an absent key, no
  unparsable data, no unnamed command), Raft hand them out in order and address members of the group,
  and the member tables name existing peers. Then in every state the cluster reaches, on every
  server, every queued callback whose request can be serialised, every timer and every reply
  completes, and every Raft message the cluster has sent is accepted where it arrives: none ends in
  \<^verbatim>\<open>JLOG_FATAL\<close> or undefined behaviour.
\<close>

theorem cluster_never_stops:
  assumes "surroundings_ok ldb view connect" and "healthy_start view pb applied LOG Ci"
    and "raft_ok jr applied LOG R Ci" and "cluster_execution jr ldb pb connect R Ci C" and "cluster_visits R C"
    and "\<forall>h s req r d. C h = Some s \<and> KvOpTask req r d \<in> set (loop_tasks s) \<longrightarrow> SerializeToString pb req \<noteq> None"
  shows "(\<forall>h s. C h = Some s \<longrightarrow> handles_all jr ldb pb connect s)
    \<and> (\<forall>h s c r d. C h = Some s \<and> (c, r) \<in> set (sent s) \<longrightarrow>
        (\<exists>t s'. C (msg_to (raft_msg r)) = Some t \<and> HandleRaftMsg r d t = Inr s'))"
proof -
  have start: "cluster_start Ci" and one: "\<forall>h s. Ci h = Some s \<longrightarrow> local_peers s 1 \<noteq> None"
    using assms(2) unfolding healthy_start_def by blast+
  have "handles_all jr ldb pb connect s" if s: "C h = Some s" for h s
    unfolding handles_all_def
    using task_returns [OF start assms(4) s one] reply_returns [OF start assms(4) s] timer_returns [OF assms(1-5) s]
      assms(6) s by blast
  moreover have "\<exists>t s'. C (msg_to (raft_msg r)) = Some t \<and> HandleRaftMsg r d t = Inr s'"
    if "C h = Some s" "(c, r) \<in> set (sent s)" for h s c r d
    using sent_message_accepted [OF cluster_reachable_inv [OF cluster_execution_reachable [OF assms(4)] start] that]
    by blast
  ultimately show ?thesis
    by blast
qed

text \<open>A cluster of one server, whose log holds Puts of one key.\<close>

definition put_log :: "nat \<Rightarrow> Entry" where
  "put_log n = demo_entry 1 (of_nat n + 1) ''p1,a1''"

definition put_nodes :: "(Entry list \<times> nat) set" where
  "put_nodes = {(l, a). l = map put_log [0..<length l]}"

definition put_cluster :: "nat \<Rightarrow> (bytes \<times> bytes) list \<Rightarrow> (Entry list \<times> nat, (bytes \<times> bytes) list, Snapshot) cluster" where
  "put_cluster a d = [1 \<mapsto> line_server [put_log 0] a d [] []]"

lemma put_log_legal: "log_legal demo_codec (map put_log ns) m"
  by (induction ns arbitrary: m) (simp_all add: put_log_def demo_entry_def entry_legal_def demo_codec_defs)

lemma put_raft_delivers: "raft_delivers line_raft snd put_log put_nodes"
proof -
  have "drop a l = map put_log [a..<a + (length l - a)]" if "l = map put_log [0..<length l]" for l a
    using arg_cong [OF that, of "drop a"] by (cases "a \<le> length l") (simp_all add: drop_map)
  then have "\<exists>k. drop a l = map put_log [a..<a + k]" if "l = map put_log [0..<length l]" for l a
    using that by blast
  then show ?thesis
    by (auto simp: raft_delivers_def line_raft_def put_nodes_def ready_of_def)
qed

lemma put_cluster_start: "healthy_start map_of demo_codec snd (\<lambda>_ _. put_log) (put_cluster 0 [])"
  unfolding healthy_start_def cluster_start_def
  by (auto simp: put_cluster_def line_server_def line_peer_def tables_ok_def server_start_def host_ok_def
      local_peer_ok_def members_ok_def demo_member_def host_id_def host_db_path_def put_log_legal split: if_splits)

lemma put_raft_ok: "raft_ok line_raft snd (\<lambda>_ _. put_log) (\<lambda>_ _. put_nodes) (put_cluster 0 [])"
proof -
  have "raft_addresses line_raft H put_nodes" for H
    by (auto simp: raft_addresses_def line_raft_def ready_of_def no_ready_def)
  then show ?thesis
    by (simp add: raft_ok_def put_raft_delivers)
qed

lemma put_cluster_visits: "cluster_visits (\<lambda>_ _. put_nodes) (put_cluster a d)"
  by (auto simp: cluster_visits_def put_cluster_def visits_def line_server_def line_peer_def put_nodes_def split: if_splits)

lemma put_Tick:
  "with_peer 1 (Tick line_raft mem_leveldb demo_codec (\<lambda>_. 0)) (line_peer [put_log 0] 0 [] [])
       (line_server [put_log 0] 0 [] [] []) = Inr (line_server [put_log 0] 1 [(''a'', ''1'')] [] [])"
  by (simp add: with_peer_def Tick_def HandleRaftReady_def line_raft_def put_log_def line_server_def line_peer_def
      no_ready_def peer_eval demo_entry_def demo_codec_defs store_eval)

lemma put_cluster_run:
  "cluster_execution line_raft mem_leveldb demo_codec (\<lambda>_. 0) (\<lambda>_ _. put_nodes) (put_cluster 0 [])
     (put_cluster 1 [(''a'', ''1'')])"
proof -
  have "server_step line_raft mem_leveldb demo_codec (\<lambda>_. 0) (line_server [put_log 0] 0 [] [] [])
      (line_server [put_log 0] 1 [(''a'', ''1'')] [] [])"
    by (rule timer_fires [OF _ line_server_peer put_Tick]) (simp add: line_server_def)
  then have "cluster_step line_raft mem_leveldb demo_codec (\<lambda>_. 0) (put_cluster 0 [])
      ((put_cluster 0 [])(1 \<mapsto> line_server [put_log 0] 1 [(''a'', ''1'')] [] []))"
    by (intro acts) (simp_all add: put_cluster_def line_server_def)
  then have "cluster_step line_raft mem_leveldb demo_codec (\<lambda>_. 0) (put_cluster 0 []) (put_cluster 1 [(''a'', ''1'')])"
    by (simp add: put_cluster_def)
  then show ?thesis
    unfolding cluster_execution_def by (intro r_into_rtranclp) (simp add: put_cluster_visits)
qed

theorem cluster_never_stops_witness:
  "handles_all line_raft mem_leveldb demo_codec (\<lambda>_. 0) (line_server [put_log 0] 1 [(''a'', ''1'')] [] [])"
proof -
  have env: "surroundings_ok mem_leveldb map_of (\<lambda>_. 0)"
    by (simp add: surroundings_ok_def mem_leveldb_contract mem_leveldb_reliable)
  have idle: "\<forall>h s req r d. put_cluster 1 [(''a'', ''1'')] h = Some s \<and> KvOpTask req r d \<in> set (loop_tasks s) \<longrightarrow>
      SerializeToString demo_codec req \<noteq> None"
    by (auto simp: put_cluster_def line_server_def split: if_splits)
  have "put_cluster 1 [(''a'', ''1'')] 1 = Some (line_server [put_log 0] 1 [(''a'', ''1'')] [] [])"
    by (simp add: put_cluster_def)
  then show ?thesis
    using cluster_never_stops [OF env put_cluster_start put_raft_ok put_cluster_run put_cluster_visits idle] by blast
qed

end
