(* ===== verification/Lifecycle.thy ===== *)
theory Lifecycle
  imports Echo_Server Cluster_Runs
begin

text \<open>
  The life of a server from the start of its \<^verbatim>\<open>main\<close> to the destruction of its objects, and its
  next life on the same directories. The destructors \<^verbatim>\<open>~DiskStorage\<close> (disk\_storage.cc),
  \<^verbatim>\<open>~Peer\<close> (peer.cc) and \<^verbatim>\<open>~PeerHost\<close> (peer\_host.cc) are modelled by the list of what
  they delete, in order. A constructor either returns with its pointers set or stops the process, so
  the null tests of the destructors always succeed.
\<close>

section \<open>Destructors\<close>

datatype ('rn, 'db) deletion = Deleted_RawNode 'rn | Closed_DB string 'db

definition destroy_DiskStorage :: "'db DiskStorage \<Rightarrow> ('rn, 'db) deletion list" where
  "destroy_DiskStorage s = [Closed_DB (db_path s) (db s)]"

definition destroy_Peer :: "('rn, 'db) Peer \<Rightarrow> ('rn, 'db) deletion list" where
  "destroy_Peer p = Deleted_RawNode (raw_node p) # destroy_DiskStorage (kv_db p)"

text \<open>
  The body of \<^verbatim>\<open>~PeerHost\<close> is empty; its member \<^verbatim>\<open>local_peers_\<close> holds the only lasting
  reference to each peer. \<open>ids\<close> is the order in which the unordered map destroys its elements.
\<close>

definition destroy_PeerHost :: "PeerId list \<Rightarrow> ('rn, 'db, 'ms, 'z) PeerHost_scheme \<Rightarrow> ('rn, 'db) deletion list" where
  "destroy_PeerHost ids s =
     concat (map (\<lambda>i. case local_peers s i of None \<Rightarrow> [] | Some p \<Rightarrow> destroy_Peer p) ids)"

fun closed_dirs :: "('rn, 'db) deletion list \<Rightarrow> string list" where
  "closed_dirs [] = []"
| "closed_dirs (Deleted_RawNode n # ds) = closed_dirs ds"
| "closed_dirs (Closed_DB path d # ds) = path # closed_dirs ds"

lemma closed_dirs_append [simp]: "closed_dirs (xs @ ys) = closed_dirs xs @ closed_dirs ys"
  by (induction xs rule: closed_dirs.induct) simp_all

lemma closed_dirs_Peer [simp]: "closed_dirs (destroy_Peer p) = [db_path (kv_db p)]"
  by (simp add: destroy_Peer_def destroy_DiskStorage_def)

lemma destroy_PeerHost_Cons:
  "destroy_PeerHost (i # ids) s = (case local_peers s i of None \<Rightarrow> [] | Some p \<Rightarrow> destroy_Peer p) @ destroy_PeerHost ids s"
  by (simp add: destroy_PeerHost_def)

lemma closed_dirs_PeerHost:
  assumes "host_ok s" and "set ids \<subseteq> dom (local_peers s)"
  shows "closed_dirs (destroy_PeerHost ids s) = map (peer_dir (host_db_path s)) ids"
  using assms(2)
proof (induction ids)
  case Nil
  then show ?case
    by (simp add: destroy_PeerHost_def)
next
  case (Cons i ids)
  then obtain p where "local_peers s i = Some p"
    by auto
  moreover from this assms(1) have "db_path (kv_db p) = peer_dir (host_db_path s) i"
    by (auto simp: host_ok_def local_peer_ok_def)
  ultimately show ?case
    using Cons by (simp add: destroy_PeerHost_Cons)
qed

lemma destroyed_db:
  assumes "local_peers s i = Some p" and "i \<in> set ids"
  shows "Closed_DB (db_path (kv_db p)) (db (kv_db p)) \<in> set (destroy_PeerHost ids s)"
  using assms by (force simp: destroy_PeerHost_def destroy_Peer_def destroy_DiskStorage_def)

section \<open>Constructing again\<close>

lemma new_Peer_db:
  assumes "new_Peer jr ldb split fs iter opt base = Inr p"
  shows "db_Open ldb True (peer_dir base (po_peer_id opt)) = (StatusOk, db (kv_db p))"
  using assms
  by (auto simp: new_Peer_def new_DiskStorage_def peer_dir_def Let_def
      split: option.splits if_splits prod.splits Status.splits)

lemma server_main_peer:
  assumes "server_main jr ldb split fs iter w ms rs f = Inr r" and "local_peers (host r) i = Some p"
  shows "i = FLAGS_peer_id f"
    and "db_Open ldb True (db_path (kv_db p)) = (StatusOk, db (kv_db p))"
    and "db_path (kv_db p) = peer_dir (FLAGS_host_path f @ ''_'' @ to_string (FLAGS_host_id f)) (FLAGS_peer_id f)"
proof -
  from assms(1) obtain q where q: "new_Peer jr ldb split fs iter (server_peer_option w ms f)
       (FLAGS_host_path f @ ''_'' @ to_string (FLAGS_host_id f)) = Inr q"
    and r: "local_peers (host r) = [FLAGS_peer_id f \<mapsto> q]"
    by (rule server_main_Inr) (simp add: StartTimer_def)
  then have i: "i = FLAGS_peer_id f" "p = q"
    using assms(2) by (auto split: if_splits)
  then show "i = FLAGS_peer_id f"
    by simp
  show "db_path (kv_db p) = peer_dir (FLAGS_host_path f @ ''_'' @ to_string (FLAGS_host_id f)) (FLAGS_peer_id f)"
    using new_Peer_state(5) [OF q] i(2) by (simp add: server_peer_option_def)
  then show "db_Open ldb True (db_path (kv_db p)) = (StatusOk, db (kv_db p))"
    using new_Peer_db [OF q] i(2) by (simp add: server_peer_option_def)
qed

lemma peer_move_dir: "peer_move jr ldb pb connect M p p' \<Longrightarrow> db_path (kv_db p') = db_path (kv_db p)"
proof (induction rule: peer_move.induct)
  case (steps m p e p')
  then show ?case
    by (auto simp: Step_def split: prod.splits)
qed (auto dest: ProposeKvOp_frame Tick_frame)

lemma execution_origin:
  assumes "execution jr ldb pb connect R M s0 s" and "local_peers s i = Some p"
  shows "\<exists>p0. local_peers s0 i = Some p0 \<and> db_path (kv_db p) = db_path (kv_db p0)"
  by (rule execution_peers [OF assms(1) _ _ assms(2),
        where I = "\<lambda>i p. \<exists>p0. local_peers s0 i = Some p0 \<and> db_path (kv_db p) = db_path (kv_db p0)"])
    (auto dest: peer_move_dir)

text \<open>
  What LevelDB promises of a directory whose database was closed: opening it again gives a database
  with the contents it had.
\<close>

definition reopens :: "('db \<Rightarrow> bytes \<rightharpoonup> bytes) \<Rightarrow> 'db2 leveldb \<Rightarrow> ('db2 \<Rightarrow> bytes \<rightharpoonup> bytes)
    \<Rightarrow> ('rn, 'db) deletion list \<Rightarrow> bool" where
  "reopens view ldb2 view2 ds \<longleftrightarrow>
     (\<forall>path d d2. Closed_DB path d \<in> set ds \<and> db_Open ldb2 True path = (StatusOk, d2) \<longrightarrow> view2 d2 = view d)"

section \<open>Properties\<close>

text \<open>
  C18: a server closes what it opened. When the host of a server is destroyed in any state the server
  has reached, whatever the order in which the table of peers is torn down, the database directories
  that are closed are pairwise different and are exactly those its peers had opened at the start;
  every peer deletes its Raft node first.
\<close>

theorem shutdown_closes_each_once:
  assumes "server_start s0" and "(server_step jr ldb pb connect)\<^sup>*\<^sup>* s0 s"
    and "distinct ids" and "set ids = dom (local_peers s)"
  shows "distinct (closed_dirs (destroy_PeerHost ids s))
    \<and> set (closed_dirs (destroy_PeerHost ids s)) = {db_path (kv_db p) | i p. local_peers s0 i = Some p}
    \<and> (\<forall>i p. local_peers s i = Some p \<longrightarrow>
         hd (destroy_Peer p) = Deleted_RawNode (raw_node p) \<and> set (destroy_Peer p) \<subseteq> set (destroy_PeerHost ids s))"
proof -
  note inv = server_reachable_inv [OF assms(2) server_start_inv [OF assms(1)]]
  have ok: "host_ok s" "host_ok s0"
    using inv assms(1) by (simp_all add: server_inv_def server_start_def)
  have base: "host_db_path s = host_db_path s0"
    using inv by (simp add: host_db_path_def)
  have dom: "dom (local_peers s) = dom (local_peers s0)"
    using inv reachable_timers_peers [OF assms(2)] by blast
  have dirs: "closed_dirs (destroy_PeerHost ids s) = map (peer_dir (host_db_path s0)) ids"
    using closed_dirs_PeerHost [OF ok(1)] assms(4) by (simp add: base)
  have "db_path (kv_db p) = peer_dir (host_db_path s0) i" if "local_peers s0 i = Some p" for i p
    using ok(2) that by (auto simp: host_ok_def local_peer_ok_def)
  then have "peer_dir (host_db_path s0) ` dom (local_peers s0) = {db_path (kv_db p) | i p. local_peers s0 i = Some p}"
    by (auto simp: image_iff) force
  moreover have "distinct (map (peer_dir (host_db_path s0)) ids)"
    using assms(3) by (auto simp: distinct_map inj_on_def dest: peer_dir_inj)
  moreover have "set (destroy_Peer p) \<subseteq> set (destroy_PeerHost ids s)" if "local_peers s i = Some p" for i p
    using that assms(4) by (force simp: destroy_PeerHost_def)
  ultimately show ?thesis
    using dirs assms(4) dom by (simp add: destroy_Peer_def)
qed

theorem shutdown_closes_each_once_witness:
  "closed_dirs (destroy_PeerHost [1] (demo_server [1 \<mapsto> demo_added 1])) = [peer_dir ''host'' 1]
   \<and> distinct (closed_dirs (destroy_PeerHost [1] (demo_server [1 \<mapsto> demo_added 1])))"
proof -
  have "dom (local_peers (demo_server [1 \<mapsto> demo_added 1])) = {1}"
    by (simp add: demo_server_def)
  then show ?thesis
    using shutdown_closes_each_once [OF demo_server_start [of 1] rtranclp.rtrancl_refl, of "[1]"]
    by (simp add: destroy_PeerHost_def demo_server_def demo_added_def)
qed

text \<open>
  C11: a restarted server catches up. A server starts with an empty database, runs through any
  execution and is shut down; its program is started again with the same host path, host and peer
  identifier, on the directories it closed, and runs through any execution in which Raft hands out
  the log of the group from its beginning again. As soon as it has been given as many entries as in
  its first life, its store is the replay of the log from the empty store, as if it had never stopped.
  Until then a key shows what the entries given again write to it last, if any of them writes it, and
  otherwise what it held at the shutdown.
\<close>

theorem restarted_server_catches_up:
  assumes "leveldb_contract ldb view" and "raft_delivers jr applied LOG (R (FLAGS_peer_id f))"
    and "server_main jr ldb split fs iter w ms rs f = Inr r" and "execution jr ldb pb connect R M (host r) s"
    and "local_peers (host r) (FLAGS_peer_id f) = Some p0" and "applied (raw_node p0) = 0"
    and "disk_contents view (kv_db p0) = Map.empty" and "local_peers s (FLAGS_peer_id f) = Some p"
    and "FLAGS_peer_id f \<in> set ids" and "reopens view ldb2 view2 (destroy_PeerHost ids s)"
    and "leveldb_contract ldb2 view2" and "raft_delivers jr2 applied2 LOG (R2 (FLAGS_peer_id f))"
    and "server_main jr2 ldb2 split2 fs2 iter2 w2 ms2 rs2 f2 = Inr r2" and "execution jr2 ldb2 pb connect2 R2 M2 (host r2) t"
    and "FLAGS_host_path f2 = FLAGS_host_path f" and "FLAGS_host_id f2 = FLAGS_host_id f"
    and "FLAGS_peer_id f2 = FLAGS_peer_id f"
    and "local_peers (host r2) (FLAGS_peer_id f) = Some q0" and "applied2 (raw_node q0) = 0"
    and "local_peers t (FLAGS_peer_id f) = Some q"
  shows "(applied (raw_node p) \<le> applied2 (raw_node q) \<longrightarrow>
      disk_contents view2 (kv_db q) = replay pb (map LOG [0..<applied2 (raw_node q)]) Map.empty)
    \<and> (\<forall>k. disk_contents view2 (kv_db q) k =
         (case last_written pb k (map LOG [0..<applied2 (raw_node q)]) of None \<Rightarrow> disk_contents view (kv_db p) k | Some v \<Rightarrow> v))"
proof -
  let ?a = "applied (raw_node p)" and ?b = "applied2 (raw_node q)"
  have first: "disk_contents view (kv_db p) = replay pb (map LOG [0..<?a]) Map.empty"
    using execution_follows [OF assms(1,2,4,5,6,8)] assms(7) by (simp add: follows_def)
  have "db_path (kv_db p) = db_path (kv_db p0)"
    using execution_origin [OF assms(4,8)] assms(5) by auto
  then have dir: "db_path (kv_db q0) = db_path (kv_db p)"
    using server_main_peer(3) [OF assms(3,5)] server_main_peer(3) [OF assms(13,18)] assms(15-17) by simp
  have "view2 (db (kv_db q0)) = view (db (kv_db p))"
    using assms(10) destroyed_db [OF assms(8,9)] server_main_peer(2) [OF assms(13,18)] dir
    unfolding reopens_def by metis
  then have again: "disk_contents view2 (kv_db q) = replay pb (map LOG [0..<?b]) (disk_contents view (kv_db p))"
    using execution_follows [OF assms(11,12,14,18,19,20)] by (simp add: follows_def disk_contents_def)
  have "disk_contents view2 (kv_db q) = replay pb (map LOG [0..<?b]) Map.empty" if "?a \<le> ?b"
  proof -
    have "map LOG [0..<?b] = map LOG [0..<?a] @ map LOG [?a..<?b]"
      using that upt_add_eq_append [of 0 ?a "?b - ?a"] by simp
    then show ?thesis
      using again first replay_over_prefix by metis
  qed
  then show ?thesis
    using again by (simp add: replay_last_written split: option.splits)
qed

text \<open>A node that starts with one committed Put to hand out, and the two lives of a server with it.\<close>

definition boot_raft :: "(Entry list \<times> nat, Snapshot) jraft" where
  "boot_raft = line_raft\<lparr>rn_new := \<lambda>_ _. Inr ([put_log 0], 0)\<rparr>"

definition life_peer :: "nat \<Rightarrow> (bytes \<times> bytes) list \<Rightarrow> (Entry list \<times> nat, (bytes \<times> bytes) list) Peer" where
  "life_peer a d = \<lparr>self = \<lparr>gm_host_id = 1, gm_peer_id = 1, gm_ip = ''127.0.0.1'', gm_port = 10000\<rparr>, worker = 0,
     peers = [(1, \<lparr>gm_host_id = 1, gm_peer_id = 1, gm_ip = ''a'', gm_port = 10\<rparr>)], raw_node = ([put_log 0], a),
     kv_db = \<lparr>db_path = peer_dir ''./host_1'' 1, db = d\<rparr>, proposals = []\<rparr>"

definition life_flags :: server_flags where
  "life_flags = demo_flags 1\<lparr>FLAGS_members := ''1,1,a,10''\<rparr>"

definition life_server :: "nat \<Rightarrow> (bytes \<times> bytes) list \<Rightarrow> (Entry list \<times> nat, (bytes \<times> bytes) list, Snapshot) server" where
  "life_server a d = StartTimer 1 (server_boot demo_replies (server_host_option 0 empty_snapshot life_flags)
     \<lparr>local_peers := [1 \<mapsto> life_peer a d]\<rparr>)"

definition disk_leveldb :: "(bytes \<times> bytes) list \<Rightarrow> (bytes \<times> bytes) list leveldb" where
  "disk_leveldb d = mem_leveldb\<lparr>db_Open := \<lambda>_ _. (StatusOk, d)\<rparr>"

lemma disk_leveldb_contract: "leveldb_contract (disk_leveldb d) map_of"
  using mem_leveldb_contract by (simp add: disk_leveldb_def leveldb_contract_def)

lemma boot_raft_delivers: "raft_delivers boot_raft snd put_log put_nodes"
  using put_raft_delivers by (simp add: boot_raft_def raft_delivers_def ready_of_def)

lemma life_main:
  "server_main boot_raft (disk_leveldb d) ref_split demo_fs id 0 empty_snapshot demo_replies life_flags =
     Inr \<lparr>listen_addr = \<lparr>sa_ip = ''127.0.0.1'', sa_port = 10000\<rparr>,
          services = [RaftMsgServiceImpl, KvServiceImpl], host = life_server 0 d\<rparr>"
proof -
  have "InitGroupMembers ref_split ''1,1,a,10'' [] =
      Inr [(1, \<lparr>gm_host_id = 1, gm_peer_id = 1, gm_ip = ''a'', gm_port = 10\<rparr>)]"
    by (simp add: InitGroupMembers_def InitGroupMember_def atoi_def atoi_sign_def is_space_def
        is_digit_def digit_val_def)
  moreover have "to_string 1 = ''1''"
    by (simp add: to_string_def to_dec.simps digit_def char_of_def bit_0)
  ultimately show ?thesis
    by (simp add: server_main_def server_CheckFlags_def life_flags_def demo_flags_def default_server_flags_def
        AddLocalPeer_def CheckPeerOption_def server_peer_option_def server_host_option_def new_Peer_def
        new_DiskStorage_def demo_fs_def disk_leveldb_def boot_raft_def line_raft_def mutable_local_peers_def host_db_path_def
        life_server_def life_peer_def peer_dir_def)
qed

lemma life_peer_of: "local_peers (life_server a d) 1 = Some (life_peer a d)"
  by (simp add: life_server_def StartTimer_def)

lemma life_visits: "visits (\<lambda>_. put_nodes) {} (life_server a d)"
  by (auto simp: visits_def life_server_def StartTimer_def life_peer_def put_nodes_def split: if_splits)

lemma life_execution:
  "execution boot_raft (disk_leveldb e) demo_codec (\<lambda>_. 0) (\<lambda>_. put_nodes) {} (life_server 0 d)
     (life_server 1 ((''a'', ''1'') # d))"
proof -
  have tick: "with_peer 1 (Tick boot_raft (disk_leveldb e) demo_codec (\<lambda>_. 0)) (life_peer 0 d) (life_server 0 d) =
      Inr (life_server 1 ((''a'', ''1'') # d))"
    by (simp add: with_peer_def Tick_def HandleRaftReady_def boot_raft_def line_raft_def put_log_def life_server_def
        StartTimer_def life_peer_def no_ready_def peer_eval demo_entry_def demo_codec_defs store_eval disk_leveldb_def
        server_boot_def new_PeerHost_def PeerHost.defs)
  have "server_step boot_raft (disk_leveldb e) demo_codec (\<lambda>_. 0) (life_server 0 d)
      (life_server 1 ((''a'', ''1'') # d))"
    by (rule timer_fires [OF _ life_peer_of tick]) (simp add: life_server_def StartTimer_def)
  then show ?thesis
    unfolding execution_def by (intro r_into_rtranclp) (simp add: life_visits)
qed

theorem restarted_server_catches_up_witness:
  "disk_contents map_of \<lparr>db_path = peer_dir ''./host_1'' 1, db = [(''a'', ''1''), (''a'', ''1'')]\<rparr> =
     replay demo_codec (map put_log [0..<1]) Map.empty"
proof -
  have id: "FLAGS_peer_id life_flags = 1"
    by (simp add: life_flags_def demo_flags_def)
  have peer: "local_peers (host \<lparr>listen_addr = a, services = b, host = life_server n d\<rparr>) (FLAGS_peer_id life_flags) =
      Some (life_peer n d)" "local_peers (life_server n d) (FLAGS_peer_id life_flags) = Some (life_peer n d)" for a b n d
    by (simp_all add: id life_peer_of)
  have closed: "reopens map_of (disk_leveldb [(''a'', ''1'')]) map_of (destroy_PeerHost [1] (life_server 1 [(''a'', ''1'')]))"
    by (simp add: reopens_def destroy_PeerHost_def life_peer_of destroy_Peer_def destroy_DiskStorage_def
        disk_leveldb_def life_peer_def)
  have run: "execution boot_raft (disk_leveldb e) demo_codec (\<lambda>_. 0) (\<lambda>_. put_nodes) {}
      (host \<lparr>listen_addr = a, services = b, host = life_server 0 d\<rparr>) (life_server 1 ((''a'', ''1'') # d))" for a b d e
    using life_execution by simp
  show ?thesis
    using restarted_server_catches_up [OF disk_leveldb_contract boot_raft_delivers life_main run peer(1) _ _ peer(2) _ closed
        disk_leveldb_contract boot_raft_delivers life_main run refl refl refl peer(1) _ peer(2), THEN conjunct1]
    by (simp add: life_peer_def id disk_contents_def)
qed

end
