(* ===== verification/Request_Fates.thy ===== *)
theory Request_Fates
  imports Replication
begin

text \<open>
  What becomes of a request. A completion closure that the RPC layer hands to the server is at every
  later moment exactly one of: run, held by a pending proposal, or held by a queued callback. The one
  way to lose it is a committed entry without a command at the position of a pending proposal
  (\<open>Peer_Anomalies.no_command_never_answered\<close>); in executions without such entries none is lost.
\<close>

section \<open>Exact accounting\<close>

text \<open>
  \<open>answerable e s\<close>: the step for \<open>e\<close> does not drop a closure; later states keep this.
\<close>

locale closure_conserving = closure_accounting step answered waiting
  for step :: "'e \<Rightarrow> 's \<Rightarrow> 's outcome"
    and answered :: "'s \<Rightarrow> closure_ptr list"
    and waiting :: "'s \<Rightarrow> closure_ptr list" +
  fixes answerable :: "'e \<Rightarrow> 's \<Rightarrow> bool"
  assumes exact: "step e s = Inr s' \<Longrightarrow> answerable e s \<Longrightarrow>
      mset (answered s') + mset (waiting s') = mset (answered s) + mset (waiting s)"
    and stays: "step e s = Inr s' \<Longrightarrow> answerable e' s \<Longrightarrow> answerable e' s'"
begin

lemma run_exact:
  "ofold step es s = Inr s' \<Longrightarrow> \<forall>e\<in>set es. answerable e s \<Longrightarrow>
     mset (answered s') + mset (waiting s') = mset (answered s) + mset (waiting s)"
proof (induction es arbitrary: s)
  case (Cons e es)
  then obtain t where t: "step e s = Inr t" "ofold step es t = Inr s'"
    by auto
  then have "\<forall>e\<in>set es. answerable e t"
    using Cons.prems(2) stays by simp
  with Cons.IH [OF t(2)] exact [OF t(1)] Cons.prems(2) show ?case
    by simp
qed simp

end

text \<open>An entry at the position of a pending proposal carries a command.\<close>

definition entry_answerable :: "pb_codec \<Rightarrow> Entry \<Rightarrow> ('rn, 'db) Peer \<Rightarrow> bool" where
  "entry_answerable pb e p \<longleftrightarrow>
     (\<forall>q\<in>set (proposals p). matches (entry_index e) (entry_term e) q \<longrightarrow> entry_op pb e \<noteq> None)"

lemma ProcessEntry_exact:
  assumes "ProcessEntry jr ldb pb e (peer, s) = Inr (peer', s')"
  shows "set (proposals peer') \<subseteq> set (proposals peer)"
    and "entry_answerable pb e peer \<Longrightarrow>
      mset (ran s') + mset (map p_done (proposals peer')) = mset (ran s) + mset (map p_done (proposals peer))"
proof -
  obtain p peer1 s1 where c: "claim_proposal jr e (peer, s) = (p, peer1, s1)"
    and q: "proposals peer' = proposals peer1"
    and r: "ran s' = ran s1 @ (if entry_op pb e = None then [] else (case p of None \<Rightarrow> [] | Some q \<Rightarrow> [p_done q]))"
    using assms by (auto elim: ProcessEntry_queue)
  note split = claim_proposal_queue [OF c]
  show "set (proposals peer') \<subseteq> set (proposals peer)"
    unfolding q split(1) by auto
  assume ok: "entry_answerable pb e peer"
  have found: "entry_op pb e \<noteq> None" if p: "p = Some x" for x
  proof -
    have "x \<in> set (proposals peer)"
      unfolding split(1) p by simp
    moreover have "matches (entry_index e) (entry_term e) x"
      using claim_proposal_found c p by blast
    ultimately show ?thesis
      using ok unfolding entry_answerable_def by blast
  qed
  have "ran s1 = ran s @ map p_done (rejects jr e peer)"
    using split(2) by simp
  moreover have "map p_done (proposals peer) = map p_done (rejects jr e peer)
      @ (case p of None \<Rightarrow> [] | Some q \<Rightarrow> [p_done q]) @ map p_done (proposals peer')"
    unfolding q by (subst split(1)) (simp split: option.split)
  ultimately show "mset (ran s') + mset (map p_done (proposals peer')) = mset (ran s) + mset (map p_done (proposals peer))"
    using r found by (auto split: option.splits)
qed

interpretation peer_answers: closure_conserving "ProcessEntry jr ldb pb" answers pending
  "\<lambda>e st. entry_answerable pb e (fst st)" for jr ldb pb
proof
  fix e e' and st st' :: "('a, 'c) Peer \<times> 'd replies_scheme"
  assume "ProcessEntry jr ldb pb e st = Inr st'"
  then have step: "ProcessEntry jr ldb pb e (fst st, snd st) = Inr (fst st', snd st')"
    by simp
  show "mset (answers st') + mset (pending st') = mset (answers st) + mset (pending st)"
    if "entry_answerable pb e (fst st)"
    using ProcessEntry_exact(2) [OF step that] by (simp add: answers_def pending_def)
  show "entry_answerable pb e' (fst st')" if "entry_answerable pb e' (fst st)"
    using ProcessEntry_exact(1) [OF step] that by (auto simp: entry_answerable_def)
qed

section \<open>Ticks and steps of a server\<close>

text \<open>What the next tick of every local peer hands out can be answered.\<close>

definition server_answerable :: "('rn, 'ms) jraft \<Rightarrow> pb_codec \<Rightarrow> ('rn, 'db, 'ms) server \<Rightarrow> bool" where
  "server_answerable jr pb s \<longleftrightarrow> (\<forall>i p. local_peers s i = Some p \<longrightarrow>
     (\<forall>e\<in>set (rd_committed_entries (ready_of jr (rn_Tick jr (raw_node p)))). entry_answerable pb e p))"

lemma Tick_exact:
  assumes "Tick jr ldb pb connect (p, s) = Inr (p', s')"
    and "\<forall>e\<in>set (rd_committed_entries (ready_of jr (rn_Tick jr (raw_node p)))). entry_answerable pb e p"
  shows "mset (ran s') + mset (map p_done (proposals p')) = mset (ran s) + mset (map p_done (proposals p))"
  using assms(1)
proof (cases rule: Tick_cases)
  case silent
  then show ?thesis
    using assms(1) by (auto simp: Tick_def HandleRaftReady_def)
next
  case (ready n rd q s1)
  let ?q = "p\<lparr>raw_node := stored_node jr n\<rparr>"
  have "ofold (ProcessEntry jr ldb pb) (rd_committed_entries rd) (?q, s1) = Inr (q, s')"
    using ready(4) by (simp add: ProcessEntries_def)
  moreover have "\<forall>e\<in>set (rd_committed_entries rd). entry_answerable pb e (fst (?q, s1))"
    using assms(2) ready(1,3) by (simp add: entry_answerable_def)
  ultimately show ?thesis
    using peer_answers.run_exact [of jr ldb pb "rd_committed_entries rd" "(?q, s1)" "(q, s')"] ready(6,7)
    by (simp add: answers_def pending_def)
qed

lemma timer_conserves:
  fixes s :: "('rn, 'db, 'ms) server"
  assumes "server_inv s" and "local_peers s i = Some p" and "server_answerable jr pb s"
    and "with_peer i (Tick jr ldb pb connect) p s = Inr s'"
  shows "mset (held s') = mset (held s)"
proof -
  obtain p' s1 where T: "Tick jr ldb pb connect (p, s) = Inr (p', s1)"
    and s': "s' = s1\<lparr>local_peers := (local_peers s1)(i \<mapsto> p')\<rparr>"
    using assms(4) by (auto simp: with_peer_def)
  have same: "local_peers s1 = local_peers s" "loop_tasks s1 = loop_tasks s"
    using Tick_frame [OF T] by (auto intro: net_more_server)
  have exact: "mset (ran s1) + mset (map p_done (proposals p')) = mset (ran s) + mset (map p_done (proposals p))"
    using Tick_exact [OF T] assms(2,3) by (simp add: server_answerable_def)
  show ?thesis
  proof (cases "i = 1")
    case True
    then show ?thesis
      using exact assms(2) by (simp add: held_def peer_pending_def s' same ran_def)
  next
    case False
    then have "proposals p = []"
      using assms(1,2) by (simp add: server_inv_def)
    moreover from this have "proposals p' = []"
      using Tick_frame [OF T] by auto
    ultimately show ?thesis
      using exact False by (simp add: held_def peer_pending_def s' same ran_def)
  qed
qed

lemma server_step_conserves:
  assumes "server_step jr ldb pb connect s s'" and "server_inv s" and "server_answerable jr pb s"
  shows "mset (held s) \<subseteq># mset (held s')"
  using assms(1)
proof cases
  case (kv_arrives d req resp)
  then show ?thesis
    by (simp add: KvOp_def held_arrival)
next
  case (raft_arrives d req)
  then show ?thesis
    by (auto simp: HandleRaftMsg_def held_arrival split: if_splits)
next
  case (task_runs ts t us)
  then show ?thesis
    using run_task_account [OF task_runs(2)] by (simp add: held_def peer_pending_def ran_def)
next
  case (timer_fires i p)
  then show ?thesis
    using timer_conserves [OF assms(2) timer_fires(2) assms(3)] by simp
next
  case (reply_arrives xs cntl resp ys)
  then show ?thesis
    by (auto simp: HandleSendMsg2Peer_def delete_object_def held_def peer_pending_def ran_def split: if_splits)
qed

definition answering_run :: "('rn, 'ms) jraft \<Rightarrow> 'db leveldb \<Rightarrow> pb_codec \<Rightarrow> (RpcClient \<Rightarrow> int)
    \<Rightarrow> ('rn, 'db, 'ms) server \<Rightarrow> ('rn, 'db, 'ms) server \<Rightarrow> bool" where
  "answering_run jr ldb pb connect = (\<lambda>s s'. server_answerable jr pb s \<and> server_step jr ldb pb connect s s')\<^sup>*\<^sup>*"

lemma answering_run_conserves:
  assumes "answering_run jr ldb pb connect s t" and "server_inv s"
  shows "mset (held s) \<subseteq># mset (held t) \<and> server_inv t"
  using assms unfolding answering_run_def
proof (induction rule: rtranclp_induct)
  case (step t u)
  then have inv: "server_inv t" "mset (held s) \<subseteq># mset (held t)"
    and t: "server_answerable jr pb t" "server_step jr ldb pb connect t u"
    by simp_all
  show ?case
    using subset_mset.order_trans [OF inv(2) server_step_conserves [OF t(2) inv(1) t(1)]]
      server_step_inv(1) [OF t(2) inv(1)] by blast
qed simp

lemma answering_run_reachable:
  "answering_run jr ldb pb connect s t \<Longrightarrow> (server_step jr ldb pb connect)\<^sup>*\<^sup>* s t"
  unfolding answering_run_def by (rule rtranclp_mono [THEN predicate2D, rotated]) auto

section \<open>Properties\<close>

text \<open>
  C8: no request is lost and none is answered twice. Run a server from its start through any
  interleaving in which every committed entry at the position of a pending proposal carries a
  command. A closure that the server holds in some state of the run, for a client request or for a
  Raft message, is in every later state of the run exactly once among the closures that have run,
  those of the pending proposals of peer 1 and those of the queued callbacks.
\<close>

theorem no_request_lost:
  assumes "server_start s0" and "answering_run jr ldb pb connect s0 s" and "answering_run jr ldb pb connect s t"
    and "d \<in> set (held s)"
  shows "count (mset (ran t @ peer_pending t 1 @ map task_done (loop_tasks t))) d = 1"
proof -
  have s: "server_inv s"
    using answering_run_conserves [OF assms(2) server_start_inv [OF assms(1)]] by blast
  note t = answering_run_conserves [OF assms(3) s]
  have "d \<in># mset (held t)"
    using mset_subset_eqD [of "mset (held s)" "mset (held t)" d] t assms(4) by simp
  moreover have "distinct (held t)"
    using t by (simp add: server_inv_def)
  ultimately have "count (mset (held t)) d = 1"
    by (simp add: distinct_count_atmost_1)
  then show ?thesis
    by (simp add: held_def)
qed

text \<open>One request is queued, proposed, committed and answered.\<close>

lemma line_KvOpCb:
  "run_task line_raft demo_codec (KvOpTask (mk_del ''a'') 4 8) (line_server [] 0 [] [] []) =
     Inr (line_server [demo_entry 1 1 ''da''] 0 [] [new_Proposal 1 1 4 8] [])"
  by (simp add: run_task_def KvOpCb_def mutable_local_peers_def with_peer_def line_server_def line_peer_def
      ProposeKvOp_def IsLeader_def line_raft_def Let_def NextProposalIndex_def Term_def demo_codec_def demo_print_def)

lemma line_answer:
  "with_peer 1 (Tick line_raft mem_leveldb demo_codec (\<lambda>_. 0))
       (line_peer [demo_entry 1 1 ''da''] 0 [] [new_Proposal 1 1 4 8])
       (line_server [demo_entry 1 1 ''da''] 0 [] [new_Proposal 1 1 4 8] []) =
     Inr (Run 8 (line_server [demo_entry 1 1 ''da''] 1 [] [] []))"
  by (simp add: with_peer_def Tick_def HandleRaftReady_def line_raft_def line_server_def line_peer_def Run_def
      no_ready_def peer_eval demo_entry_def demo_codec_defs store_eval new_Proposal_def)

lemma line_answerable:
  "server_answerable line_raft demo_codec (line_server [] 0 [] [] ts)"
  "server_answerable line_raft demo_codec (line_server [demo_entry 1 1 ''da''] 0 [] [new_Proposal 1 1 4 8] [])"
  by (auto simp: server_answerable_def line_server_def line_peer_def line_raft_def ready_of_def no_ready_def
      entry_answerable_def entry_op_def demo_entry_def demo_codec_defs split: if_splits)

lemma line_request:
  "answering_run line_raft mem_leveldb demo_codec (\<lambda>_. 0) (line_server [] 0 [] [] [])
     (line_server [] 0 [] [] [KvOpTask (mk_del ''a'') 4 8])"
  "answering_run line_raft mem_leveldb demo_codec (\<lambda>_. 0) (line_server [] 0 [] [] [KvOpTask (mk_del ''a'') 4 8])
     (Run 8 (line_server [demo_entry 1 1 ''da''] 1 [] [] []))"
proof -
  let ?t = "KvOpTask (mk_del ''a'') 4 8" and ?e = "demo_entry 1 1 ''da''"
  let ?R = "\<lambda>s s'. server_answerable line_raft demo_codec s \<and> server_step line_raft mem_leveldb demo_codec (\<lambda>_. 0) s s'"
  have "KvOp (mk_del ''a'') 4 8 (line_server [] 0 [] [] []) = line_server [] 0 [] [] [?t]"
    "8 \<notin> set (held (line_server [] 0 [] [] []))"
    by (simp_all add: KvOp_def RunInLoop_def line_server_def line_peer_def held_def ran_def peer_pending_def)
  then have "server_step line_raft mem_leveldb demo_codec (\<lambda>_. 0) (line_server [] 0 [] [] []) (line_server [] 0 [] [] [?t])"
    by (metis kv_arrives)
  then show "answering_run line_raft mem_leveldb demo_codec (\<lambda>_. 0) (line_server [] 0 [] [] []) (line_server [] 0 [] [] [?t])"
    unfolding answering_run_def by (intro r_into_rtranclp) (simp add: line_answerable)
  have "server_step line_raft mem_leveldb demo_codec (\<lambda>_. 0) (line_server [] 0 [] [] [?t])
      (line_server [?e] 0 [] [new_Proposal 1 1 4 8] [])"
    by (rule task_runs [of _ "[]" ?t "[]"]) (use line_KvOpCb in \<open>simp_all add: line_server_def\<close>)
  moreover have "server_step line_raft mem_leveldb demo_codec (\<lambda>_. 0) (line_server [?e] 0 [] [new_Proposal 1 1 4 8] [])
      (Run 8 (line_server [?e] 1 [] [] []))"
    by (rule timer_fires [OF _ line_server_peer line_answer]) (simp add: line_server_def)
  ultimately have "?R (line_server [] 0 [] [] [?t]) (line_server [?e] 0 [] [new_Proposal 1 1 4 8] [])"
    "?R (line_server [?e] 0 [] [new_Proposal 1 1 4 8] []) (Run 8 (line_server [?e] 1 [] [] []))"
    by (simp_all add: line_answerable)
  then have "?R\<^sup>*\<^sup>* (line_server [] 0 [] [] [?t]) (Run 8 (line_server [?e] 1 [] [] []))"
    by (rule converse_rtranclp_into_rtranclp [OF _ r_into_rtranclp])
  then show "answering_run line_raft mem_leveldb demo_codec (\<lambda>_. 0) (line_server [] 0 [] [] [?t])
      (Run 8 (line_server [?e] 1 [] [] []))"
    by (simp only: answering_run_def)
qed

theorem no_request_lost_witness:
  "count (mset (ran (Run 8 (line_server [demo_entry 1 1 ''da''] 1 [] [] [])) @ [] @ [])) 8 = 1"
proof -
  have start: "server_start (line_server [] 0 [] [] [])"
    by (simp add: server_start_def line_server_def line_peer_def host_ok_def local_peer_ok_def members_ok_def
        demo_member_def host_id_def host_db_path_def)
  have held: "8 \<in> set (held (line_server [] 0 [] [] [KvOpTask (mk_del ''a'') 4 8]))"
    by (simp add: held_def line_server_def)
  show ?thesis
    using no_request_lost [OF start line_request held]
    by (simp add: line_server_def line_peer_def peer_pending_def)
qed

end
