(* ===== verification/Atomic_Store.thy ===== *)
theory Atomic_Store
  imports Replication
begin

text \<open>
  What a client of a server may rely on, as an abstract machine: an atomic key-value store. A call
  waits until it is answered; between the two, a call that is served takes effect at one instant,
  with the answer that the store gives at that instant, and a call that is rejected has no answer
  from the store. Commands of other servers' clients may take effect at any time. The theory
  \<open>Atomic_Refinement\<close> shows that every execution of a server whose Raft node drops no proposal is one of
  this machine.
\<close>

section \<open>The abstract machine\<close>

datatype answer = Rejected | Done | Value bytes

fun op_answer :: "store_op \<Rightarrow> (bytes \<rightharpoonup> bytes) \<Rightarrow> answer" where
  "op_answer (SGet k) m = (case m k of Some v \<Rightarrow> Value v | None \<Rightarrow> Rejected)"
| "op_answer (SPut k v) m = Done"
| "op_answer (SDel k) m = Done"

text \<open>
  A waiting call is the closure of the request with its command; the command is \<open>None\<close> when the
  request names none.
\<close>

record atomic =
  at_store :: "bytes \<rightharpoonup> bytes"
  at_waiting :: "(closure_ptr \<times> store_op option) multiset"
  at_answered :: "(closure_ptr \<times> answer) list"

definition settle :: "closure_ptr \<times> store_op option \<Rightarrow> answer \<Rightarrow> atomic \<Rightarrow> atomic" where
  "settle w x a = a\<lparr>at_waiting := at_waiting a - {#w#}, at_answered := at_answered a @ [(fst w, x)]\<rparr>"

inductive atomic_step :: "atomic \<Rightarrow> atomic \<Rightarrow> bool" where
  call: "d \<notin> fst ` set_mset (at_waiting a) \<Longrightarrow> d \<notin> fst ` set (at_answered a)
    \<Longrightarrow> atomic_step a (a\<lparr>at_waiting := add_mset (d, c) (at_waiting a)\<rparr>)"
| serve: "(d, Some c) \<in># at_waiting a \<Longrightarrow> op_enabled c (at_store a)
    \<Longrightarrow> atomic_step a (settle (d, Some c) (op_answer c (at_store a)) a\<lparr>at_store := op_effect c (at_store a)\<rparr>)"
| refuse: "(d, c) \<in># at_waiting a \<Longrightarrow> atomic_step a (settle (d, c) Rejected a)"
| forget: "(d, None) \<in># at_waiting a \<Longrightarrow> atomic_step a (a\<lparr>at_waiting := at_waiting a - {#(d, None)#}\<rparr>)"
| elsewhere: "op_enabled c (at_store a) \<Longrightarrow> atomic_step a (a\<lparr>at_store := op_effect c (at_store a)\<rparr>)"

inductive_cases atomic_stepE: "atomic_step a b"

section \<open>Calls and their answers\<close>

text \<open>
  The calls of the machine are told apart by their closures: nothing waits twice, and nothing that
  was answered waits.
\<close>

definition atomic_inv :: "atomic \<Rightarrow> bool" where
  "atomic_inv a \<longleftrightarrow> (\<forall>d. count (image_mset fst (at_waiting a)) d \<le> 1) \<and> distinct (map fst (at_answered a))
     \<and> fst ` set_mset (at_waiting a) \<inter> fst ` set (at_answered a) = {}"

lemma atomic_inv_settle:
  assumes "atomic_inv a" and "w \<in># at_waiting a"
  shows "atomic_inv (settle w x a)"
proof -
  obtain W where W: "at_waiting a = add_mset w W"
    using assms(2) by (metis insert_DiffM)
  have c: "count (image_mset fst (add_mset w W)) d \<le> 1" for d
    using assms(1) unfolding atomic_inv_def W by blast
  have once: "count (image_mset fst W) d \<le> 1" for d
    using c [of d] by (simp split: if_splits)
  have "count (image_mset fst W) (fst w) = 0"
    using c [of "fst w"] by simp
  then have "fst w \<notin> fst ` set_mset W"
    by (simp add: count_eq_zero_iff)
  with once show ?thesis
    using assms(1) unfolding atomic_inv_def settle_def W by auto
qed

lemma atomic_inv_step: "atomic_step a b \<Longrightarrow> atomic_inv a \<Longrightarrow> atomic_inv b"
proof (induction rule: atomic_step.induct)
  case (call d a c)
  then show ?case
    by (auto simp: atomic_inv_def)
next
  case (serve d c a)
  then show ?case
    using atomic_inv_settle [OF serve(3,1), of "op_answer c (at_store a)"] by (simp add: atomic_inv_def)
next
  case (refuse d c a)
  then show ?case
    by (simp add: atomic_inv_settle)
next
  case (forget d a)
  then show ?case
    using atomic_inv_settle [OF forget(2,1), of Rejected] by (auto simp: atomic_inv_def settle_def)
qed (simp add: atomic_inv_def)

lemma atomic_inv_run: "atomic_step\<^sup>*\<^sup>* a b \<Longrightarrow> atomic_inv a \<Longrightarrow> atomic_inv b"
  by (induction rule: rtranclp_induct) (auto intro: atomic_inv_step)

text \<open>The instant at which the call \<open>d\<close> of the command \<open>c\<close> is served, within a run from \<open>a\<close> to \<open>b\<close>.\<close>

definition served_at :: "closure_ptr \<Rightarrow> store_op \<Rightarrow> answer \<Rightarrow> (bytes \<rightharpoonup> bytes) \<Rightarrow> atomic \<Rightarrow> atomic \<Rightarrow> bool" where
  "served_at d c x m a b \<longleftrightarrow> (\<exists>u v. atomic_step\<^sup>*\<^sup>* a u \<and> (d, Some c) \<in># at_waiting u \<and> at_store u = m
     \<and> op_enabled c m \<and> x = op_answer c m
     \<and> v = settle (d, Some c) x u\<lparr>at_store := op_effect c m\<rparr> \<and> atomic_step u v \<and> atomic_step\<^sup>*\<^sup>* v b)"

lemma served_at_extend: "served_at d c x m a b \<Longrightarrow> atomic_step b b' \<Longrightarrow> served_at d c x m a b'"
  unfolding served_at_def using rtranclp.rtrancl_into_rtrancl [of atomic_step _ b b'] by blast

text \<open>
  What becomes of a call: it waits, was rejected, or was served at an instant of the run, with the
  answer of the store at that instant.
\<close>

lemma call_fate:
  assumes "atomic_step\<^sup>*\<^sup>* a b" and "atomic_inv a" and "(d, Some c) \<in># at_waiting a"
  shows "(d, Some c) \<in># at_waiting b \<or> (d, Rejected) \<in> set (at_answered b)
    \<or> (\<exists>x m. (d, x) \<in> set (at_answered b) \<and> served_at d c x m a b)"
  using assms(1)
proof (induction rule: rtranclp_induct)
  case (step u v)
  have inv: "atomic_inv u"
    using atomic_inv_run [OF step.hyps(1) assms(2)] .
  have grows: "set (at_answered u) \<subseteq> set (at_answered v)"
    using step.hyps(2) by cases (auto simp: settle_def)
  show ?case
  proof (cases "(d, Some c) \<in># at_waiting u")
    case True
    from step.hyps(2) show ?thesis
    proof cases
      case (serve d' c')
      show ?thesis
      proof (cases "(d', c') = (d, c)")
        case True
        then have "served_at d c (op_answer c (at_store u)) (at_store u) a v"
          unfolding served_at_def using serve step.hyps by blast
        with True serve show ?thesis
          by (auto simp: settle_def)
      qed (use True serve in \<open>auto simp: settle_def in_diff_count count_eq_zero_iff\<close>)
    next
      case (refuse d' c')
      then show ?thesis
        using True by (cases "(d', c') = (d, Some c)") (auto simp: settle_def in_diff_count count_eq_zero_iff)
    qed (use True in \<open>auto simp: in_diff_count count_eq_zero_iff\<close>)
  next
    case False
    then show ?thesis
      using step.IH grows served_at_extend [OF _ step.hyps(2)] by blast
  qed
qed (use assms(3) in simp)

lemma answer_served:
  assumes "atomic_step\<^sup>*\<^sup>* a b" and "atomic_inv a" and "(d, Some c) \<in># at_waiting a"
    and "(d, x) \<in> set (at_answered b)" and "x \<noteq> Rejected"
  shows "\<exists>m. served_at d c x m a b"
proof -
  have inv: "atomic_inv b"
    using atomic_inv_run [OF assms(1,2)] .
  have "(d, Some c) \<notin># at_waiting b"
    using inv assms(4) by (force simp: atomic_inv_def)
  moreover have "y = x" if "(d, y) \<in> set (at_answered b)" for y
    using inv that assms(4) by (auto simp: atomic_inv_def intro: eq_key_imp_eq_value)
  ultimately show ?thesis
    using call_fate [OF assms(1-3)] assms(5) by blast
qed

section \<open>Steps by the entries of a log\<close>

text \<open>
  The same steps, told apart by what causes them: calls arrive and are refused at any time; an entry
  of the log with the command \<open>c\<close> serves the call it was proposed for, or takes effect without one; an
  entry without a command drops the call it was proposed for, or does nothing.
\<close>

inductive quiet_step :: "atomic \<Rightarrow> atomic \<Rightarrow> bool" where
  call: "d \<notin> fst ` set_mset (at_waiting a) \<Longrightarrow> d \<notin> fst ` set (at_answered a)
    \<Longrightarrow> quiet_step a (a\<lparr>at_waiting := add_mset (d, c) (at_waiting a)\<rparr>)"
| refuse: "(d, c) \<in># at_waiting a \<Longrightarrow> quiet_step a (settle (d, c) Rejected a)"

inductive entry_step :: "store_op option \<Rightarrow> atomic \<Rightarrow> atomic \<Rightarrow> bool" where
  serve: "(d, Some c) \<in># at_waiting a \<Longrightarrow> op_enabled c (at_store a) \<Longrightarrow>
    entry_step (Some c) a (settle (d, Some c) (op_answer c (at_store a)) a\<lparr>at_store := op_effect c (at_store a)\<rparr>)"
| elsewhere: "op_enabled c (at_store a) \<Longrightarrow> entry_step (Some c) a (a\<lparr>at_store := op_effect c (at_store a)\<rparr>)"
| forget: "(d, None) \<in># at_waiting a \<Longrightarrow> entry_step None a (a\<lparr>at_waiting := at_waiting a - {#(d, None)#}\<rparr>)"
| skip: "entry_step None a a"

inductive_cases entry_step_SomeE: "entry_step (Some c) a b"

lemma quiet_step_atomic: "quiet_step a b \<Longrightarrow> atomic_step a b"
  by (induction rule: quiet_step.induct) (rule atomic_step.call atomic_step.refuse; assumption)+

lemma entry_step_atomic: "entry_step c a b \<Longrightarrow> atomic_step\<^sup>=\<^sup>= a b"
  by (induction rule: entry_step.induct)
    (auto intro: atomic_step.serve atomic_step.elsewhere atomic_step.forget)

lemma quiet_run_atomic: "quiet_step\<^sup>*\<^sup>* a b \<Longrightarrow> atomic_step\<^sup>*\<^sup>* a b"
  by (rule rtranclp_mono [THEN predicate2D]) (auto intro: quiet_step_atomic)

text \<open>The commands \<open>cs\<close> of consecutive entries, with quiet steps around them.\<close>

fun entries_run :: "store_op option list \<Rightarrow> atomic \<Rightarrow> atomic \<Rightarrow> bool" where
  "entries_run [] a b \<longleftrightarrow> quiet_step\<^sup>*\<^sup>* a b"
| "entries_run (c # cs) a b \<longleftrightarrow> (\<exists>u v. quiet_step\<^sup>*\<^sup>* a u \<and> entry_step c u v \<and> entries_run cs v b)"

lemma entries_run_atomic: "entries_run cs a b \<Longrightarrow> atomic_step\<^sup>*\<^sup>* a b"
proof (induction cs arbitrary: a)
  case Nil
  then show ?case
    by (simp add: quiet_run_atomic)
next
  case (Cons c cs)
  then obtain u v where "quiet_step\<^sup>*\<^sup>* a u" "entry_step c u v" "atomic_step\<^sup>*\<^sup>* v b"
    by auto
  then have "atomic_step\<^sup>*\<^sup>* a u" "atomic_step\<^sup>*\<^sup>* u v" "atomic_step\<^sup>*\<^sup>* v b"
    using quiet_run_atomic entry_step_atomic [of c u v] by auto
  then show ?case
    by (meson rtranclp_trans)
qed

text \<open>The machine that follows a log, with its position in it; \<open>cmd j\<close> is the command of entry \<open>j\<close>.\<close>

inductive log_step :: "(nat \<Rightarrow> store_op option) \<Rightarrow> atomic \<times> nat \<Rightarrow> atomic \<times> nat \<Rightarrow> bool" for cmd where
  quiet: "quiet_step a b \<Longrightarrow> log_step cmd (a, j) (b, j)"
| entry: "entry_step (cmd j) a b \<Longrightarrow> log_step cmd (a, j) (b, Suc j)"

lemma quiet_run_log: "quiet_step\<^sup>*\<^sup>* a b \<Longrightarrow> (log_step cmd)\<^sup>*\<^sup>* (a, j) (b, j)"
  by (induction rule: rtranclp_induct) (auto intro: rtranclp.rtrancl_into_rtrancl [of "log_step cmd"] log_step.quiet)

lemma entries_run_log:
  "entries_run (map cmd [j..<j + k]) a b \<Longrightarrow> (log_step cmd)\<^sup>*\<^sup>* (a, j) (b, j + k)"
proof (induction k arbitrary: j a)
  case 0
  then show ?case
    by (simp add: quiet_run_log)
next
  case (Suc k)
  then have "entries_run (cmd j # map cmd [Suc j..<Suc j + k]) a b"
    by (simp add: upt_conv_Cons del: upt_Suc)
  then obtain u v where u: "quiet_step\<^sup>*\<^sup>* a u" "entry_step (cmd j) u v" "entries_run (map cmd [Suc j..<Suc j + k]) v b"
    by auto
  have "(log_step cmd)\<^sup>*\<^sup>* (a, j) (v, Suc j)"
    using quiet_run_log [OF u(1), of cmd j] log_step.entry [of cmd j u v, OF u(2)] by (rule rtranclp.rtrancl_into_rtrancl)
  with Suc.IH [OF u(3)] show ?case
    by simp
qed

definition cmd_effect :: "store_op option \<Rightarrow> (bytes \<rightharpoonup> bytes) \<Rightarrow> (bytes \<rightharpoonup> bytes)" where
  "cmd_effect c m = (case c of None \<Rightarrow> m | Some c' \<Rightarrow> op_effect c' m)"

lemma quiet_step_store: "quiet_step a b \<Longrightarrow> at_store b = at_store a"
  by (induction rule: quiet_step.induct) (simp_all add: settle_def)

lemma entry_step_store: "entry_step c a b \<Longrightarrow> at_store b = cmd_effect c (at_store a)"
  by (induction rule: entry_step.induct) (simp_all add: cmd_effect_def)

lemma log_step_atomic: "log_step cmd x y \<Longrightarrow> atomic_step\<^sup>=\<^sup>= (fst x) (fst y)"
  by (induction rule: log_step.induct) (auto dest: quiet_step_atomic entry_step_atomic)

lemma log_run_inv: "(log_step cmd)\<^sup>*\<^sup>* x y \<Longrightarrow> atomic_inv (fst x) \<Longrightarrow> atomic_inv (fst y)"
  by (induction rule: rtranclp_induct) (auto dest: log_step_atomic intro: atomic_inv_step)

lemma log_run_store:
  "(log_step cmd)\<^sup>*\<^sup>* x y \<Longrightarrow> snd x \<le> snd y
     \<and> at_store (fst y) = fold cmd_effect (map cmd [snd x..<snd y]) (at_store (fst x))"
proof (induction rule: rtranclp_induct)
  case (step y z)
  from step.hyps(2) step.IH show ?case
    by cases (auto dest: quiet_step_store entry_step_store)
qed simp

text \<open>Where in the log a call is served.\<close>

definition served_by :: "(nat \<Rightarrow> store_op option) \<Rightarrow> closure_ptr \<Rightarrow> store_op \<Rightarrow> atomic \<times> nat \<Rightarrow> nat \<Rightarrow> answer \<Rightarrow> bool" where
  "served_by cmd d c x j y \<longleftrightarrow> cmd j = Some c
     \<and> (\<exists>u. (log_step cmd)\<^sup>*\<^sup>* x (u, j) \<and> op_enabled c (at_store u) \<and> y = op_answer c (at_store u))"

lemma log_step_fate:
  assumes "log_step cmd (a, i) (b, k)" and "(d, Some c) \<in># at_waiting a"
  shows "(d, Some c) \<in># at_waiting b \<or> (d, Rejected) \<in> set (at_answered b)
    \<or> i < k \<and> cmd i = Some c \<and> op_enabled c (at_store a) \<and> (d, op_answer c (at_store a)) \<in> set (at_answered b)"
  using assms(1)
proof cases
  case quiet
  from quiet(2) show ?thesis
  proof cases
    case (refuse d' c')
    then show ?thesis
      using assms(2) by (cases "(d', c') = (d, Some c)") (auto simp: settle_def in_diff_count count_eq_zero_iff)
  qed (use assms(2) in auto)
next
  case entry
  from entry(2) show ?thesis
  proof cases
    case (serve d' c')
    then show ?thesis
      using assms(2) entry(1) by (cases "(d', c') = (d, c)") (auto simp: settle_def in_diff_count count_eq_zero_iff)
  qed (use assms(2) in \<open>auto simp: in_diff_count count_eq_zero_iff\<close>)
qed

lemma log_step_answers: "log_step cmd x y \<Longrightarrow> set (at_answered (fst x)) \<subseteq> set (at_answered (fst y))"
  by (induction rule: log_step.induct) (auto elim!: quiet_step.cases entry_step.cases simp: settle_def)

lemma log_call_fate:
  assumes "(log_step cmd)\<^sup>*\<^sup>* x y" and "(d, Some c) \<in># at_waiting (fst x)"
  shows "(d, Some c) \<in># at_waiting (fst y) \<or> (d, Rejected) \<in> set (at_answered (fst y))
    \<or> (\<exists>j r. j < snd y \<and> (d, r) \<in> set (at_answered (fst y)) \<and> served_by cmd d c x j r)"
  using assms(1)
proof (induction rule: rtranclp_induct)
  case (step y z)
  obtain a i b k where yz: "y = (a, i)" "z = (b, k)"
    by fastforce
  have le: "i \<le> k"
    using step.hyps(2) yz by (auto elim: log_step.cases)
  consider "(d, Some c) \<in># at_waiting a" | "(d, Rejected) \<in> set (at_answered a)"
    | j r where "j < i" "(d, r) \<in> set (at_answered a)" "served_by cmd d c x j r"
    using step.IH yz by auto
  then show ?case
  proof cases
    case 1
    from log_step_fate [OF step.hyps(2) [unfolded yz] 1] show ?thesis
      using step.hyps(1) yz unfolding served_by_def by auto
  next
    case 2
    then show ?thesis
      using log_step_answers [OF step.hyps(2)] yz by auto
  next
    case (3 j r)
    then have "j < snd z" "(d, r) \<in> set (at_answered (fst z))"
      using log_step_answers [OF step.hyps(2)] yz le by auto
    with 3(3) show ?thesis
      by blast
  qed
qed (use assms(2) in simp)

lemma log_answer_served:
  assumes "(log_step cmd)\<^sup>*\<^sup>* x y" and "atomic_inv (fst x)" and "(d, Some c) \<in># at_waiting (fst x)"
    and "(d, r) \<in> set (at_answered (fst y))" and "r \<noteq> Rejected"
  shows "\<exists>j. snd x \<le> j \<and> j < snd y \<and> cmd j = Some c
    \<and> op_enabled c (fold cmd_effect (map cmd [snd x..<j]) (at_store (fst x)))
    \<and> r = op_answer c (fold cmd_effect (map cmd [snd x..<j]) (at_store (fst x)))"
proof -
  have inv: "atomic_inv (fst y)"
    by (rule log_run_inv [OF assms(1,2)])
  have "(d, Some c) \<notin># at_waiting (fst y)"
    using inv assms(4) by (force simp: atomic_inv_def)
  moreover have "z = r" if "(d, z) \<in> set (at_answered (fst y))" for z
    using inv that assms(4) by (auto simp: atomic_inv_def intro: eq_key_imp_eq_value)
  ultimately obtain j where j: "j < snd y" "served_by cmd d c x j r"
    using log_call_fate [OF assms(1,3)] assms(5) by blast
  then obtain u where u: "(log_step cmd)\<^sup>*\<^sup>* x (u, j)" "cmd j = Some c" "op_enabled c (at_store u)" "r = op_answer c (at_store u)"
    by (auto simp: served_by_def)
  from log_run_store [OF u(1)] j(1) u(2-4) show ?thesis
    by auto
qed

section \<open>Simulations\<close>

text \<open>A system each step of which is a run of a specification, as seen through an abstraction.\<close>

locale forward_simulation =
  fixes cstep :: "'c \<Rightarrow> 'c \<Rightarrow> bool"
    and astep :: "'a \<Rightarrow> 'a \<Rightarrow> bool"
    and abs :: "'c \<Rightarrow> 'a"
    and inv :: "'c \<Rightarrow> bool"
  assumes keeps: "inv s \<Longrightarrow> cstep s s' \<Longrightarrow> inv s'"
    and simulates: "inv s \<Longrightarrow> cstep s s' \<Longrightarrow> astep\<^sup>*\<^sup>* (abs s) (abs s')"
begin

lemma run_keeps: "cstep\<^sup>*\<^sup>* s t \<Longrightarrow> inv s \<Longrightarrow> inv t"
  by (induction rule: rtranclp_induct) (auto intro: keeps)

lemma run_simulates: "cstep\<^sup>*\<^sup>* s t \<Longrightarrow> inv s \<Longrightarrow> astep\<^sup>*\<^sup>* (abs s) (abs t)"
proof (induction rule: rtranclp_induct)
  case (step t u)
  then show ?case
    using simulates [OF run_keeps step.hyps(2)] by (meson rtranclp_trans)
qed simp

end

end
