(* ===== verification/Atomic_Refinement.thy ===== *)
theory Atomic_Refinement
  imports Atomic_Store
begin

text \<open>
  Every execution of a server in which its Raft node drops no proposal (\<open>client_step\<close>) is an
  execution of the atomic store of \<open>Atomic_Store\<close>, as its clients see it: the store is the one of peer 1, which serves the clients; a call waits from the moment
  \<^verbatim>\<open>KvOp\<close> is entered until its closure runs, first as a queued callback and then as a
  pending proposal; its answer is what its response object holds when its closure runs.
\<close>

section \<open>The view of a client\<close>

definition req_op :: "KvReq \<Rightarrow> store_op option" where
  "req_op req = (case cmd_type req of
     kGet \<Rightarrow> Some (SGet (get_key (get_req req)))
   | kPut \<Rightarrow> Some (SPut (put_key (put_req req)) (put_value (put_req req)))
   | kDel \<Rightarrow> Some (SDel (del_key (del_req req)))
   | _ \<Rightarrow> None)"

definition data_op :: "pb_codec \<Rightarrow> bytes \<Rightarrow> store_op option" where
  "data_op pb x = (case ParseFromString pb x of None \<Rightarrow> None | Some req \<Rightarrow> req_op req)"

lemma entry_op_data: "entry_op pb e = (if entry_type e = kEntryNormal then data_op pb (entry_data e) else None)"
  by (auto simp: entry_op_def data_op_def req_op_def split: option.splits CmdType.splits)

lemma data_op_serialized: "codec_contract pb \<Longrightarrow> SerializeToString pb req = Some x \<Longrightarrow> data_op pb x = req_op req"
  by (simp add: codec_contract_def data_op_def)

definition reply_answer :: "KvResp \<Rightarrow> answer" where
  "reply_answer x = (if rejected x then Rejected
     else case get_resp_opt x of None \<Rightarrow> Done | Some g \<Rightarrow> Value (get_value g))"

definition fresh_resp :: "KvResp \<Rightarrow> bool" where
  "fresh_resp x \<longleftrightarrow> \<not> rejected x \<and> get_resp_opt x = None"

text \<open>
  \<open>\<rho>\<close> gives the response object of every client call, by the closure of the call; the closures of
  Raft messages are not in its domain.
\<close>

type_synonym calls = "closure_ptr \<rightharpoonup> resp_ptr"

fun client_answers :: "calls \<Rightarrow> (closure_ptr \<times> (resp_ptr \<Rightarrow> KvResp)) list \<Rightarrow> (closure_ptr \<times> answer) list" where
  "client_answers \<rho> [] = []"
| "client_answers \<rho> ((d, h) # rs) =
     (case \<rho> d of None \<Rightarrow> [] | Some r \<Rightarrow> [(d, reply_answer (h r))]) @ client_answers \<rho> rs"

lemma client_answers_append [simp]: "client_answers \<rho> (rs @ rs') = client_answers \<rho> rs @ client_answers \<rho> rs'"
  by (induction \<rho> rs rule: client_answers.induct) auto

lemma client_answer: "\<rho> d = Some r \<Longrightarrow> (d, h) \<in> set rs \<Longrightarrow> (d, reply_answer (h r)) \<in> set (client_answers \<rho> rs)"
  by (induction \<rho> rs rule: client_answers.induct) auto

lemma client_answers_closures: "fst ` set (client_answers \<rho> rs) \<subseteq> fst ` set rs"
  by (induction \<rho> rs rule: client_answers.induct) (auto split: option.splits)

fun queued_calls :: "task list \<Rightarrow> (closure_ptr \<times> store_op option) list" where
  "queued_calls [] = []"
| "queued_calls (KvOpTask req r d # ts) = (d, req_op req) # queued_calls ts"
| "queued_calls (RaftMsgTask req d # ts) = queued_calls ts"

lemma queued_calls_append [simp]: "queued_calls (ts @ us) = queued_calls ts @ queued_calls us"
  by (induction ts rule: queued_calls.induct) auto

lemma queued_call: "KvOpTask req r d \<in> set ts \<Longrightarrow> (d, req_op req) \<in> set (queued_calls ts)"
  by (induction ts rule: queued_calls.induct) auto

lemma queued_calls_closures: "fst ` set (queued_calls ts) \<subseteq> task_done ` set ts"
  by (induction ts rule: queued_calls.induct) auto

text \<open>
  \<open>g\<close> gives what the node has proposed, by index and term: the command of a pending proposal is the
  one of the data that was proposed at its position.
\<close>

type_synonym filing = "u64 \<times> u64 \<rightharpoonup> bytes"

definition proposal_call :: "pb_codec \<Rightarrow> filing \<Rightarrow> Proposal \<Rightarrow> closure_ptr \<times> store_op option" where
  "proposal_call pb g q = (p_done q, case g (p_index q, p_term q) of None \<Rightarrow> None | Some x \<Rightarrow> data_op pb x)"

definition seen :: "pb_codec \<Rightarrow> calls \<Rightarrow> (closure_ptr \<times> store_op option) list \<Rightarrow> filing
    \<Rightarrow> (bytes \<rightharpoonup> bytes) \<Rightarrow> Proposal list \<Rightarrow> 'z replies_scheme \<Rightarrow> atomic" where
  "seen pb \<rho> W g m qs s = \<lparr>at_store = m, at_waiting = mset W + mset (map (proposal_call pb g) qs),
     at_answered = client_answers \<rho> (runs s)\<rparr>"

text \<open>
  The state of the client calls: every pending proposal was proposed at its position, for a client
  call that has not been answered, and the response of a call is untouched until then.
\<close>

definition filed :: "calls \<Rightarrow> filing \<Rightarrow> Proposal list \<Rightarrow> 'z replies_scheme \<Rightarrow> bool" where
  "filed \<rho> g qs s \<longleftrightarrow> inj_on \<rho> (dom \<rho>)
     \<and> (\<forall>q\<in>set qs. g (p_index q, p_term q) \<noteq> None \<and> \<rho> (p_done q) = Some (p_resp q))
     \<and> distinct (map p_done qs) \<and> p_done ` set qs \<inter> set (ran s) = {}
     \<and> (\<forall>d r. \<rho> d = Some r \<and> d \<notin> set (ran s) \<longrightarrow> fresh_resp (resps s r))"

lemma filed_weaken:
  assumes "filed \<rho> g qs s" and "g \<subseteq>\<^sub>m g'"
  shows "filed \<rho> g' qs s" "seen pb \<rho> W g' m qs s = seen pb \<rho> W g m qs s"
proof -
  have same: "g' (p_index q, p_term q) = g (p_index q, p_term q)" "g (p_index q, p_term q) \<noteq> None" if "q \<in> set qs" for q
    using assms that unfolding filed_def map_le_def by (metis domIff)+
  then show "filed \<rho> g' qs s"
    using assms(1) unfolding filed_def by metis
  have "map (proposal_call pb g') qs = map (proposal_call pb g) qs"
    using same(1) by (simp add: proposal_call_def)
  then show "seen pb \<rho> W g' m qs s = seen pb \<rho> W g m qs s"
    by (simp only: seen_def)
qed

text \<open>Writing the response of a call and running its closure.\<close>

lemma filed_run:
  assumes "filed \<rho> g qs s" and "\<rho> d = Some r" and "d \<notin> p_done ` set qs"
    and "resps s' = (resps s)(r := x)" and "runs s' = runs s @ [(d, resps s')]"
  shows "filed \<rho> g qs s'" and "client_answers \<rho> (runs s') = client_answers \<rho> (runs s) @ [(d, reply_answer x)]"
proof -
  have ran: "ran s' = ran s @ [d]"
    using assms(5) by (simp add: ran_def)
  have "fresh_resp (resps s' r')" if "\<rho> d' = Some r'" "d' \<notin> set (ran s')" for d' r'
  proof -
    have "r' \<noteq> r"
      using that assms(1,2) ran by (auto simp: filed_def inj_on_def dom_def)
    moreover have "fresh_resp (resps s r')"
      using that ran assms(1) unfolding filed_def by auto
    ultimately show ?thesis
      using assms(4) by simp
  qed
  then show "filed \<rho> g qs s'"
    using assms(1,3) ran unfolding filed_def by auto
  show "client_answers \<rho> (runs s') = client_answers \<rho> (runs s) @ [(d, reply_answer x)]"
    using assms(2,4,5) by simp
qed

lemma filed_answer:
  assumes "filed \<rho> g (q # qs) s" and "resps s' = (resps s)(p_resp q := x)"
    and "runs s' = runs s @ [(p_done q, resps s')]"
  shows "filed \<rho> g qs s'"
    and "seen pb \<rho> W g m' qs s' = settle (proposal_call pb g q) (reply_answer x) (seen pb \<rho> W g m (q # qs) s)\<lparr>at_store := m'\<rparr>"
proof -
  have "filed \<rho> g qs s" "\<rho> (p_done q) = Some (p_resp q)" "p_done q \<notin> p_done ` set qs"
    using assms(1) unfolding filed_def by auto
  from filed_run [OF this assms(2,3)] show "filed \<rho> g qs s'"
    "seen pb \<rho> W g m' qs s' = settle (proposal_call pb g q) (reply_answer x) (seen pb \<rho> W g m (q # qs) s)\<lparr>at_store := m'\<rparr>"
    by (simp_all add: seen_def settle_def proposal_call_def)
qed

lemma filed_reject:
  assumes "filed \<rho> g (q # qs) s"
  shows "filed \<rho> g qs (reject q s)"
    and "quiet_step (seen pb \<rho> W g m (q # qs) s) (seen pb \<rho> W g m qs (reject q s))"
proof -
  let ?x = "(resps s (p_resp q))\<lparr>rejected := True\<rparr>"
  have run: "resps (reject q s) = (resps s)(p_resp q := ?x)" "runs (reject q s) = runs s @ [(p_done q, resps (reject q s))]"
    by (simp_all add: reject_def)
  show "filed \<rho> g qs (reject q s)"
    by (rule filed_answer(1) [OF assms run])
  have "seen pb \<rho> W g m qs (reject q s) = settle (proposal_call pb g q) Rejected (seen pb \<rho> W g m (q # qs) s)"
    using filed_answer(2) [OF assms run, of pb W m m] by (simp add: reply_answer_def) (simp add: seen_def settle_def)
  moreover have "proposal_call pb g q \<in># at_waiting (seen pb \<rho> W g m (q # qs) s)"
    by (simp add: seen_def)
  ultimately show "quiet_step (seen pb \<rho> W g m (q # qs) s) (seen pb \<rho> W g m qs (reject q s))"
    using quiet_step.refuse by (metis prod.collapse)
qed

lemma filed_rejects:
  assumes "filed \<rho> g (xs @ qs) s"
  shows "filed \<rho> g qs (fold reject xs s) \<and>
    quiet_step\<^sup>*\<^sup>* (seen pb \<rho> W g m (xs @ qs) s) (seen pb \<rho> W g m qs (fold reject xs s))"
  using assms
proof (induction xs arbitrary: s)
  case (Cons x xs)
  then have q: "filed \<rho> g (x # (xs @ qs)) s"
    by simp
  then show ?case
    using Cons.IH [OF filed_reject(1) [OF q]] filed_reject(2) [OF q, of pb W m]
    by (auto intro: converse_rtranclp_into_rtranclp [of quiet_step])
qed simp

section \<open>An entry\<close>

text \<open>What \<^verbatim>\<open>ProcessEntry\<close> does once it has looked the proposal up.\<close>

lemma apply_half:
  assumes "leveldb_contract ldb view"
    and "(if entry_type e = kEntryNormal then ProcessNormal ldb pb e f (p, s) else ProcessConfChange e f (p, s)) = Inr (p', s')"
  shows "proposals p' = proposals p"
    and "f = None \<or> entry_op pb e = None \<Longrightarrow> runs s' = runs s \<and> resps s' = resps s"
    and "f = Some q \<Longrightarrow> entry_op pb e = Some c \<Longrightarrow> fresh_resp (resps s (p_resp q)) \<Longrightarrow>
      \<exists>x. resps s' = (resps s)(p_resp q := x) \<and> runs s' = runs s @ [(p_done q, resps s')]
        \<and> reply_answer x = op_answer c (disk_contents view (kv_db p))"
proof -
  note store = DiskStorage_kv_store [OF assms(1)]
  show "proposals p' = proposals p" "f = None \<or> entry_op pb e = None \<Longrightarrow> runs s' = runs s \<and> resps s' = resps s"
    using assms(2)
    by (auto simp: ProcessNormal_def ProcessConfChange_def entry_op_def run_if_def
        split: if_splits option.splits CmdType.splits)
  assume f: "f = Some q" and c: "entry_op pb e = Some c" and fresh: "fresh_resp (resps s (p_resp q))"
  show "\<exists>x. resps s' = (resps s)(p_resp q := x) \<and> runs s' = runs s @ [(p_done q, resps s')]
        \<and> reply_answer x = op_answer c (disk_contents view (kv_db p))"
  proof (cases c)
    case (SGet k)
    then obtain v where v: "DiskStorage_Get ldb (kv_db p) k = Inr v" "s' = Run (p_done q) (set_get_value (p_resp q) v s)"
      using assms(2) f c by (auto simp: ProcessNormal_def entry_op_def split: if_splits option.splits CmdType.splits)
    with kv_store.get_sound [OF store v(1)] fresh show ?thesis
      by (intro exI [of _ "(resps s (p_resp q))\<lparr>get_resp_opt := Some \<lparr>get_value = v\<rparr>\<rparr>"])
        (simp add: SGet reply_answer_def fresh_resp_def)
  qed (use assms(2) f c fresh in \<open>auto simp: ProcessNormal_def entry_op_def run_if_def reply_answer_def fresh_resp_def
      intro!: exI [of _ "resps s (p_resp q)"] split: if_splits option.splits CmdType.splits\<close>)
qed

lemma entry_op_enabled: "entry_legal pb e m \<Longrightarrow> entry_op pb e = Some c \<Longrightarrow> op_enabled c m"
  by (auto simp: entry_legal_def entry_op_def split: if_splits option.splits CmdType.splits)

definition entry_filed :: "filing \<Rightarrow> Entry \<Rightarrow> bool" where
  "entry_filed g e \<longleftrightarrow> (\<forall>x. g (entry_index e, entry_term e) = Some x \<longrightarrow> entry_type e = kEntryNormal \<and> entry_data e = x)"

lemma proposal_call_entry:
  assumes "filed \<rho> g (q # qs) s" and "entry_filed g e" and "matches (entry_index e) (entry_term e) q"
  shows "proposal_call pb g q = (p_done q, entry_op pb e)"
  using assms by (auto simp: filed_def entry_filed_def matches_def proposal_call_def entry_op_data)

lemma filed_cong: "filed \<rho> g (xs @ qs) s \<Longrightarrow> runs s' = runs s \<Longrightarrow> resps s' = resps s \<Longrightarrow> filed \<rho> g qs s'"
  by (auto simp: filed_def ran_def)

text \<open>An entry that answers nobody: it has no proposal here or no command.\<close>

lemma unanswered_seen:
  assumes "m' = entry_effect pb e m" and "entry_legal pb e m" and "f = None \<or> entry_op pb e = None"
    and "filed \<rho> g ((case f of None \<Rightarrow> [] | Some q \<Rightarrow> [q]) @ qs) s" and "entry_filed g e"
    and "\<And>q. f = Some q \<Longrightarrow> matches (entry_index e) (entry_term e) q"
  shows "entry_step (entry_op pb e) (seen pb \<rho> W g m ((case f of None \<Rightarrow> [] | Some q \<Rightarrow> [q]) @ qs) s)
    (seen pb \<rho> W g m' qs s)"
proof (cases f)
  case None
  then show ?thesis
    using entry_step.elsewhere [of _ "seen pb \<rho> W g m qs s"] entry_op_enabled [OF assms(2)] assms(1)
    by (cases "entry_op pb e") (auto simp: seen_def entry_effect_def intro: entry_step.skip)
next
  case (Some q)
  then have "proposal_call pb g q = (p_done q, None)" "m' = m"
    using proposal_call_entry [of \<rho> g q qs s e pb] assms by (simp_all add: entry_effect_def)
  then show ?thesis
    using entry_step.forget [of "p_done q" "seen pb \<rho> W g m (q # qs) s"] Some assms(3) by (auto simp: seen_def)
qed

text \<open>An entry whose proposal, if it has one, is at the front of the queue.\<close>

lemma apply_half_seen:
  assumes "leveldb_contract ldb view"
    and "(if entry_type e = kEntryNormal then ProcessNormal ldb pb e f (p, s) else ProcessConfChange e f (p, s)) = Inr (p', s')"
    and "m = disk_contents view (kv_db p)" and "m' = entry_effect pb e m" and "entry_legal pb e m"
    and "filed \<rho> g ((case f of None \<Rightarrow> [] | Some q \<Rightarrow> [q]) @ proposals p) s" and "entry_filed g e"
    and "\<And>q. f = Some q \<Longrightarrow> matches (entry_index e) (entry_term e) q"
  shows "filed \<rho> g (proposals p) s' \<and>
    entry_step (entry_op pb e) (seen pb \<rho> W g m ((case f of None \<Rightarrow> [] | Some q \<Rightarrow> [q]) @ proposals p) s)
      (seen pb \<rho> W g m' (proposals p) s')"
proof (cases "f = None \<or> entry_op pb e = None")
  case True
  note same = apply_half(2) [OF assms(1,2) True]
  have "seen pb \<rho> W g m' (proposals p) s' = seen pb \<rho> W g m' (proposals p) s"
    using same by (simp add: seen_def)
  then show ?thesis
    using filed_cong [OF assms(6), of s'] same unanswered_seen [OF assms(4,5) True assms(6-8)] by simp
next
  case False
  then obtain q c where q: "f = Some q" and c: "entry_op pb e = Some c"
    by auto
  have inv: "filed \<rho> g (q # proposals p) s"
    using assms(6) q by simp
  have "fresh_resp (resps s (p_resp q))"
    using inv unfolding filed_def by auto
  then obtain x where x: "resps s' = (resps s)(p_resp q := x)" "runs s' = runs s @ [(p_done q, resps s')]"
    "reply_answer x = op_answer c m"
    using apply_half(3) [OF assms(1,2) q c] assms(3) by blast
  have call: "proposal_call pb g q = (p_done q, Some c)"
    using proposal_call_entry [OF inv assms(7,8)] q c by simp
  have "entry_step (Some c) (seen pb \<rho> W g m (q # proposals p) s) (seen pb \<rho> W g m' (proposals p) s')"
    unfolding filed_answer(2) [OF inv x(1,2), where m' = m' and m = m] call x(3)
    using entry_step.serve [of "p_done q" c "seen pb \<rho> W g m (q # proposals p) s"] entry_op_enabled [OF assms(5) c]
      call assms(4) c by (simp add: seen_def entry_effect_def)
  then show ?thesis
    using filed_answer(1) [OF inv x(1,2)] q c by auto
qed

lemma ProcessEntry_seen:
  assumes "leveldb_contract ldb view" and "ProcessEntry jr ldb pb e (p, s) = Inr (p', s')"
    and "filed \<rho> g (proposals p) s" and "entry_filed g e"
  shows "filed \<rho> g (proposals p') s' \<and> (\<exists>a.
    quiet_step\<^sup>*\<^sup>* (seen pb \<rho> W g (disk_contents view (kv_db p)) (proposals p) s) a
    \<and> entry_step (entry_op pb e) a (seen pb \<rho> W g (disk_contents view (kv_db p')) (proposals p') s'))"
proof -
  obtain f p1 s1 where c: "claim_proposal jr e (p, s) = (f, p1, s1)"
    by (cases "claim_proposal jr e (p, s)") auto
  let ?m = "disk_contents view (kv_db p)" and ?f = "case f of None \<Rightarrow> [] | Some q \<Rightarrow> [q]"
  have half: "(if entry_type e = kEntryNormal then ProcessNormal ldb pb e f (p1, s1) else ProcessConfChange e f (p1, s1)) = Inr (p', s')"
    using assms(2) c by (simp add: ProcessEntry_def)
  have one: "filed \<rho> g (?f @ proposals p1) s1"
    "quiet_step\<^sup>*\<^sup>* (seen pb \<rho> W g ?m (proposals p) s) (seen pb \<rho> W g ?m (?f @ proposals p1) s1)"
    using filed_rejects [of \<rho> g "rejects jr e p" "?f @ proposals p1" s pb W ?m] assms(3)
      claim_proposal_queue [OF c] by simp_all
  have "apply_entry ldb pb e (kv_db p) = Inr (kv_db p')"
    using peer_log.step_view_Inr [OF assms(2)] by (simp add: store_of_def)
  note store = apply_entry_effect [OF assms(1) this]
  have found: "matches (entry_index e) (entry_term e) q" if "f = Some q" for q
    using claim_proposal_found c that by blast
  have "kv_db p1 = kv_db p"
    using claim_proposal_frame(2) [OF c] .
  then have "filed \<rho> g (proposals p1) s' \<and> entry_step (entry_op pb e) (seen pb \<rho> W g ?m (?f @ proposals p1) s1)
      (seen pb \<rho> W g (disk_contents view (kv_db p')) (proposals p1) s')"
    using apply_half_seen [OF assms(1) half _ store one(1) assms(4) found] by simp
  with one(2) apply_half(1) [OF assms(1) half] show ?thesis
    by auto
qed

lemma ProcessEntries_seen:
  assumes "leveldb_contract ldb view" and "ProcessEntries jr ldb pb es (p, s) = Inr (p', s')"
    and "filed \<rho> g (proposals p) s" and "\<forall>e\<in>set es. entry_filed g e"
  shows "filed \<rho> g (proposals p') s' \<and>
    entries_run (map (entry_op pb) es) (seen pb \<rho> W g (disk_contents view (kv_db p)) (proposals p) s)
      (seen pb \<rho> W g (disk_contents view (kv_db p')) (proposals p') s')"
  using assms(2-4) unfolding ProcessEntries_def
proof (induction es arbitrary: p s)
  case (Cons e es)
  then obtain p1 s1 where e: "ProcessEntry jr ldb pb e (p, s) = Inr (p1, s1)"
    and rest: "ofold (ProcessEntry jr ldb pb) es (p1, s1) = Inr (p', s')"
    by auto
  have "entry_filed g e" "\<forall>e\<in>set es. entry_filed g e"
    using Cons.prems(3) by simp_all
  with ProcessEntry_seen [OF assms(1) e Cons.prems(2), of W] Cons.IH [OF rest] show ?case
    by auto
qed simp

section \<open>What the Raft library keeps of a proposal\<close>

text \<open>
  \<open>mine n\<close>: what the node has appended of what was proposed to it, by index and term. A leader that
  accepts a proposal (\<open>propose_accepted\<close>; it may also drop it, with \<^verbatim>\<open>kErrProposalDropped\<close>)
  appends it after its last index, in its term; nothing erases that it did; and an entry that is
  handed out with that index and term is the one that was proposed, for the log of a term has one
  writer. \<open>R\<close> holds the nodes of the execution.
\<close>

definition raft_files :: "('rn, 'ms) jraft \<Rightarrow> ('rn \<Rightarrow> filing) \<Rightarrow> 'rn set \<Rightarrow> bool" where
  "raft_files jr mine R \<longleftrightarrow>
     (\<forall>n\<in>R. mine n \<subseteq>\<^sub>m mine (rn_Tick jr n)) \<and> (\<forall>n\<in>R. \<forall>m. mine n \<subseteq>\<^sub>m mine (snd (rn_Step jr n m))) \<and>
     (\<forall>n\<in>R. rn_HasReady jr (rn_Tick jr n) \<longrightarrow>
        mine n \<subseteq>\<^sub>m mine (rn_Advance jr (stored_node jr (rn_Tick jr n)) (ready_of jr (rn_Tick jr n)))) \<and>
     (\<forall>n\<in>R. \<forall>x. rn_IsLeader jr n \<and> propose_accepted jr n x \<longrightarrow>
        mine n \<subseteq>\<^sub>m mine (rn_Propose jr n x) \<and> mine (rn_Propose jr n x) (rn_LastIndex jr n + 1, rn_term jr n) = Some x) \<and>
     (\<forall>n\<in>R. rn_HasReady jr (rn_Tick jr n) \<longrightarrow>
        (\<forall>e\<in>set (rd_committed_entries (ready_of jr (rn_Tick jr n))). entry_filed (mine n) e))"

lemma raft_filesD:
  assumes "raft_files jr mine R" and "n \<in> R"
  shows "mine n \<subseteq>\<^sub>m mine (rn_Tick jr n)" "mine n \<subseteq>\<^sub>m mine (snd (rn_Step jr n m))"
    "rn_HasReady jr (rn_Tick jr n) \<Longrightarrow>
       mine n \<subseteq>\<^sub>m mine (rn_Advance jr (stored_node jr (rn_Tick jr n)) (ready_of jr (rn_Tick jr n)))"
    "rn_IsLeader jr n \<Longrightarrow> propose_accepted jr n x \<Longrightarrow> mine n \<subseteq>\<^sub>m mine (rn_Propose jr n x)
       \<and> mine (rn_Propose jr n x) (rn_LastIndex jr n + 1, rn_term jr n) = Some x"
    "rn_HasReady jr (rn_Tick jr n) \<Longrightarrow>
       \<forall>e\<in>set (rd_committed_entries (ready_of jr (rn_Tick jr n))). entry_filed (mine n) e"
  using assms unfolding raft_files_def by blast+

text \<open>How the Raft node of a peer moves in a step of the server, and the entries it hands out.\<close>

inductive node_move :: "('rn, 'ms) jraft \<Rightarrow> 'rn \<Rightarrow> 'rn \<Rightarrow> Entry list \<Rightarrow> bool" for jr where
  same: "node_move jr n n []"
| proposed: "node_move jr n (rn_Propose jr n x) []"
| stepped: "node_move jr n (snd (rn_Step jr n m)) []"
| ticked: "\<not> rn_HasReady jr (rn_Tick jr n) \<Longrightarrow> node_move jr n (rn_Tick jr n) []"
| ready: "rn_HasReady jr (rn_Tick jr n) \<Longrightarrow> rd = ready_of jr (rn_Tick jr n)
    \<Longrightarrow> node_move jr n (rn_Advance jr (stored_node jr (rn_Tick jr n)) rd) (rd_committed_entries rd)"

lemma node_move_delivers:
  assumes "node_move jr n n' es" and "raft_delivers jr applied LOG R" and "n \<in> R"
  shows "applied n' = applied n + length es \<and> es = map LOG [applied n..<applied n + length es]"
  using assms(1)
proof cases
  case (ready rd)
  then obtain k where "es = map LOG [applied n..<applied n + k]"
    using assms(2,3) unfolding raft_delivers_def by metis
  then show ?thesis
    using ready by (simp add: raft_delivers_counts [OF assms(2)])
qed (simp_all add: raft_delivers_counts [OF assms(2)])

lemma Tick_seen:
  assumes "leveldb_contract ldb view" and raft: "raft_files jr mine R" and "raw_node p \<in> R"
    and "Tick jr ldb pb connect (p, s) = Inr (p', s')" and "filed \<rho> (mine (raw_node p)) (proposals p) s"
  shows "filed \<rho> (mine (raw_node p')) (proposals p') s' \<and> (\<exists>es. node_move jr (raw_node p) (raw_node p') es \<and>
    entries_run (map (entry_op pb) es) (seen pb \<rho> W (mine (raw_node p)) (disk_contents view (kv_db p)) (proposals p) s)
      (seen pb \<rho> W (mine (raw_node p')) (disk_contents view (kv_db p')) (proposals p') s'))"
  using assms(4)
proof (cases rule: Tick_cases)
  case silent
  then have "s' = s"
    using assms(4) by (simp add: Tick_def HandleRaftReady_def)
  moreover have "node_move jr (raw_node p) (raw_node p') []"
    using silent node_move.ticked by simp
  ultimately show ?thesis
    using silent filed_weaken [OF assms(5) raft_filesD(1) [OF raft assms(3)]] by (auto intro: exI [of _ "[]"])
next
  case (ready n rd q s1)
  let ?g = "mine (raw_node p)" and ?p = "p\<lparr>raw_node := stored_node jr n\<rparr>"
  have s1: "filed \<rho> ?g (proposals ?p) s1" "seen pb \<rho> W ?g m (proposals p) s1 = seen pb \<rho> W ?g m (proposals p) s" for m
    using filed_cong [of \<rho> ?g "[]" "proposals p" s s1] assms(5) ready(8,9) by (simp_all add: seen_def)
  have "\<forall>e\<in>set (rd_committed_entries rd). entry_filed ?g e"
    using raft_filesD(5) [OF raft assms(3)] ready(1-3) by simp
  note run = ProcessEntries_seen [OF assms(1) ready(4) s1(1) this]
  have "?g \<subseteq>\<^sub>m mine (raw_node p')"
    using raft_filesD(3) [OF raft assms(3)] ready(1-3,6) by simp
  note filed_weaken [OF run [THEN conjunct1] this]
  moreover have "node_move jr (raw_node p) (raw_node p') (rd_committed_entries rd)"
    using node_move.ready [of jr "raw_node p" rd] ready(1-3,6) by simp
  ultimately show ?thesis
    using run [THEN conjunct2, of W] s1(2) ready(6) by auto
qed

section \<open>The server\<close>

definition client_view :: "('db \<Rightarrow> bytes \<rightharpoonup> bytes) \<Rightarrow> pb_codec \<Rightarrow> ('rn \<Rightarrow> filing) \<Rightarrow> calls
    \<Rightarrow> ('rn, 'db, 'ms) server \<Rightarrow> atomic" where
  "client_view view pb mine \<rho> s = (let W = queued_calls (loop_tasks s) in case local_peers s 1 of
     None \<Rightarrow> seen pb \<rho> W Map.empty Map.empty [] s
   | Some p \<Rightarrow> seen pb \<rho> W (mine (raw_node p)) (disk_contents view (kv_db p)) (proposals p) s)"

definition clients_filed :: "('rn \<Rightarrow> filing) \<Rightarrow> calls \<Rightarrow> ('rn, 'db, 'ms) server \<Rightarrow> bool" where
  "clients_filed mine \<rho> s \<longleftrightarrow> (case local_peers s 1 of None \<Rightarrow> filed \<rho> Map.empty [] s
     | Some p \<Rightarrow> filed \<rho> (mine (raw_node p)) (proposals p) s)"

text \<open>The RPC layer passes each client call the response object that \<open>\<rho>\<close> names.\<close>

definition calls_match :: "calls \<Rightarrow> ('rn, 'db, 'ms) server \<Rightarrow> bool" where
  "calls_match \<rho> s \<longleftrightarrow> (\<forall>req r d. KvOpTask req r d \<in> set (loop_tasks s) \<longrightarrow> \<rho> d = Some r)
     \<and> (\<forall>req d. RaftMsgTask req d \<in> set (loop_tasks s) \<longrightarrow> \<rho> d = None)"

text \<open>
  A step of an execution in which every call has its response object and the Raft node drops no
  proposal of the server.
\<close>

definition client_step :: "('rn, 'ms) jraft \<Rightarrow> 'db leveldb \<Rightarrow> pb_codec \<Rightarrow> (RpcClient \<Rightarrow> int) \<Rightarrow> (PeerId \<Rightarrow> 'rn set)
    \<Rightarrow> calls \<Rightarrow> ('rn, 'db, 'ms) server \<Rightarrow> ('rn, 'db, 'ms) server \<Rightarrow> bool" where
  "client_step jr ldb pb connect R \<rho> s s' \<longleftrightarrow> (\<forall>i p. local_peers s i = Some p \<longrightarrow> raw_node p \<in> R i)
     \<and> calls_match \<rho> s \<and> server_step jr ldb pb connect s s' \<and> undropped jr s s'"

text \<open>What clients may see of a step: the entries that peer 1 is handed, in order, and quiet steps.\<close>

definition client_move :: "('rn, 'ms) jraft \<Rightarrow> ('db \<Rightarrow> bytes \<rightharpoonup> bytes) \<Rightarrow> pb_codec \<Rightarrow> ('rn \<Rightarrow> filing) \<Rightarrow> calls
    \<Rightarrow> ('rn, 'db, 'ms) server \<Rightarrow> ('rn, 'db, 'ms) server \<Rightarrow> bool" where
  "client_move jr view pb mine \<rho> s s' \<longleftrightarrow> clients_filed mine \<rho> s' \<and>
     (\<exists>es. entries_run (map (entry_op pb) es) (client_view view pb mine \<rho> s) (client_view view pb mine \<rho> s')
       \<and> (case local_peers s 1 of None \<Rightarrow> local_peers s' 1 = None \<and> es = []
          | Some p \<Rightarrow> (\<exists>p'. local_peers s' 1 = Some p' \<and> node_move jr (raw_node p) (raw_node p') es)))"

lemma client_move_quiet:
  assumes "clients_filed mine \<rho> s'" and "quiet_step\<^sup>*\<^sup>* (client_view view pb mine \<rho> s) (client_view view pb mine \<rho> s')"
    and "\<And>p. local_peers s 1 = Some p \<Longrightarrow> \<exists>p'. local_peers s' 1 = Some p' \<and> node_move jr (raw_node p) (raw_node p') []"
    and "local_peers s 1 = None \<Longrightarrow> local_peers s' 1 = None"
  shows "client_move jr view pb mine \<rho> s s'"
  unfolding client_move_def using assms by (auto intro!: exI [of _ "[]"] split: option.splits)

lemma client_view_closures:
  "fst ` set_mset (at_waiting (client_view view pb mine \<rho> s)) \<subseteq> set (held s)"
  "fst ` set (at_answered (client_view view pb mine \<rho> s)) \<subseteq> set (held s)"
  using queued_calls_closures [of "loop_tasks s"] client_answers_closures [of \<rho> "runs s"]
  by (auto simp: client_view_def seen_def held_def peer_pending_def ran_def proposal_call_def Let_def split: option.splits)

lemma client_arrival:
  assumes "d \<notin> set (held s)"
  shows "quiet_step (client_view view pb mine \<rho> s) (client_view view pb mine \<rho> (KvOp req r d s))"
proof -
  let ?a = "client_view view pb mine \<rho> s"
  have "d \<notin> fst ` set_mset (at_waiting ?a)" "d \<notin> fst ` set (at_answered ?a)"
    using assms client_view_closures [of view pb mine \<rho> s] by blast+
  from quiet_step.call [OF this, of "req_op req"] show ?thesis
    by (auto simp: client_view_def seen_def KvOp_def RunInLoop_def Let_def split: option.splits)
qed

lemma unmoved [simp]: "\<exists>n. q = q\<lparr>raw_node := n\<rparr> \<and> mine (raw_node q) \<subseteq>\<^sub>m mine n \<and> node_move jr (raw_node q) n []"
  by (rule exI [of _ "raw_node q"]) (simp add: node_move.same)

text \<open>A step that leaves peer 1, the calls and their responses alone is not seen by clients.\<close>

lemma client_unseen:
  assumes "queued_calls (loop_tasks s') = queued_calls (loop_tasks s)" and "client_answers \<rho> (runs s') = client_answers \<rho> (runs s)"
    and "\<And>p. local_peers s 1 = Some p \<Longrightarrow> \<exists>n. local_peers s' 1 = Some (p\<lparr>raw_node := n\<rparr>)
        \<and> mine (raw_node p) \<subseteq>\<^sub>m mine n \<and> node_move jr (raw_node p) n []"
    and "local_peers s 1 = None \<Longrightarrow> local_peers s' 1 = None"
    and "clients_filed mine \<rho> s" and "resps s' = resps s" and "\<And>d r. \<rho> d = Some r \<Longrightarrow> d \<in> set (ran s') \<longleftrightarrow> d \<in> set (ran s)"
  shows "client_move jr view pb mine \<rho> s s'"
proof -
  have still: "filed \<rho> g qs s'" if "filed \<rho> g qs s" for g qs
  proof -
    have "p_done q \<in> set (ran s') \<longleftrightarrow> p_done q \<in> set (ran s)" if "q \<in> set qs" for q
      using that \<open>filed \<rho> g qs s\<close> assms(7) [of "p_done q" "p_resp q"] by (simp add: filed_def)
    moreover have "fresh_resp (resps s' r)" if "\<rho> d = Some r" "d \<notin> set (ran s')" for d r
      using that \<open>filed \<rho> g qs s\<close> assms(6) assms(7) [OF that(1)] unfolding filed_def by auto
    ultimately show ?thesis
      using that unfolding filed_def by auto
  qed
  have same: "seen pb \<rho> W g m qs s' = seen pb \<rho> W g m qs s" for W g m qs
    using assms(2) by (simp add: seen_def)
  show ?thesis
  proof (cases "local_peers s 1")
    case None
    then show ?thesis
      using assms(1,4,5) still same by (intro client_move_quiet) (simp_all add: client_view_def clients_filed_def)
  next
    case (Some p)
    then obtain n where n: "local_peers s' 1 = Some (p\<lparr>raw_node := n\<rparr>)" "mine (raw_node p) \<subseteq>\<^sub>m mine n"
      "node_move jr (raw_node p) n []"
      using assms(3) by blast
    have "filed \<rho> (mine (raw_node p)) (proposals p) s"
      using assms(5) Some by (simp add: clients_filed_def)
    from filed_weaken [OF this n(2)] n(1,3) Some assms(1) still same show ?thesis
      by (intro client_move_quiet) (simp_all add: client_view_def clients_filed_def)
  qed
qed

lemma reject_client:
  assumes "clients_filed mine \<rho> s" and "\<rho> d = Some r" and "d \<notin> set (peer_pending s 1)"
    and "loop_tasks s = ts @ KvOpTask req r d # us" and "s' = Run d (set_rejected r (s\<lparr>loop_tasks := ts @ us\<rparr>))"
  shows "client_move jr view pb mine \<rho> s s'"
proof -
  let ?x = "(resps s r)\<lparr>rejected := True\<rparr>" and ?a = "client_view view pb mine \<rho> s"
  have run: "resps s' = (resps s)(r := ?x)" "runs s' = runs s @ [(d, resps s')]" "local_peers s' = local_peers s"
    "loop_tasks s' = ts @ us"
    using assms(5) by simp_all
  have ans: "filed \<rho> g qs s' \<and> client_answers \<rho> (runs s') = client_answers \<rho> (runs s) @ [(d, Rejected)]"
    if "filed \<rho> g qs s" "d \<notin> p_done ` set qs" for g qs
    using filed_run [OF that(1) assms(2) that(2) run(1,2)] by (simp add: reply_answer_def)
  have "clients_filed mine \<rho> s' \<and> client_view view pb mine \<rho> s' = settle (d, req_op req) Rejected ?a"
    using ans assms(1,3,4) run(3,4)
    by (auto simp: clients_filed_def client_view_def seen_def settle_def peer_pending_def split: option.splits)
  moreover have "(d, req_op req) \<in># at_waiting ?a"
    using assms(4) by (auto simp: client_view_def seen_def Let_def split: option.splits)
  ultimately show ?thesis
    using run(3) by (intro client_move_quiet) (auto intro: quiet_step.refuse node_move.same)
qed

lemma propose_client:
  fixes s :: "('rn, 'db, 'ms) server"
  assumes "codec_contract pb" and raft: "raft_files jr mine R" and "raw_node p \<in> R"
    and "clients_filed mine \<rho> s" and "\<rho> d = Some r" and "d \<notin> set (peer_pending s 1)" and "d \<notin> set (ran s)"
    and "local_peers s 1 = Some p" and "IsLeader jr p" and "ProposeKvOp jr pb req r d p = Inr p'"
    and "loop_tasks s = ts @ KvOpTask req r d # us"
    and "s' = s\<lparr>loop_tasks := ts @ us, local_peers := (local_peers s)(1 \<mapsto> p')\<rparr>" and "undropped jr s s'"
  shows "client_move jr view pb mine \<rho> s s'"
proof -
  have "local_peers s' 1 = Some p'"
    using assms(12) by simp
  then obtain x where x: "SerializeToString pb req = Some x" and accepted: "propose_accepted jr (raw_node p) x"
    using undroppedD [OF assms(13,8) _ assms(10,9)] by blast
  let ?q = "new_Proposal (NextProposalIndex jr p) (Term jr p) r d" and ?g = "mine (raw_node p)"
  have p': "p' = p\<lparr>proposals := proposals p @ [?q], raw_node := rn_Propose jr (raw_node p) x\<rparr>"
    using assms(10) ProposeKvOp_leader [OF x assms(9), of r d] by simp
  have mine: "?g \<subseteq>\<^sub>m mine (raw_node p')" "mine (raw_node p') (p_index ?q, p_term ?q) = Some x"
    using raft_filesD(4) [OF raft assms(3) _ accepted] assms(9)
    by (simp_all add: p' IsLeader_def new_Proposal_def NextProposalIndex_def Term_def)
  have old: "filed \<rho> ?g (proposals p) s"
    using assms(4,8) by (simp add: clients_filed_def)
  note old' = filed_weaken [OF old mine(1)]
  have "filed \<rho> (mine (raw_node p')) (proposals p') s"
    using old'(1) mine(2) assms(5-8) by (auto simp: filed_def p' peer_pending_def new_Proposal_def)
  then have "clients_filed mine \<rho> s'"
    unfolding clients_filed_def assms(12) by (auto simp: filed_def ran_def)
  moreover have "proposal_call pb (mine (raw_node p')) ?q = (d, req_op req)"
    using mine(2) data_op_serialized [OF assms(1) x] by (simp add: proposal_call_def new_Proposal_def)
  then have "client_view view pb mine \<rho> s' = client_view view pb mine \<rho> s"
    using old'(2) [of pb "queued_calls (ts @ us)" "disk_contents view (kv_db p)"] assms(8,11,12)
    by (simp add: client_view_def seen_def p')
  ultimately show ?thesis
    using assms(8,12) p' by (intro client_move_quiet) (auto intro: node_move.proposed)
qed

lemma task_client:
  fixes s :: "('rn, 'db, 'ms) server"
  assumes "codec_contract pb" and raft: "raft_files jr mine (R 1)" and "\<forall>i p. local_peers s i = Some p \<longrightarrow> raw_node p \<in> R i"
    and "clients_filed mine \<rho> s" and "calls_match \<rho> s" and "server_inv s"
    and tasks: "loop_tasks s = ts @ t # us" and "run_task jr pb t (s\<lparr>loop_tasks := ts @ us\<rparr>) = Inr s'"
    and "undropped jr s s'"
  shows "client_move jr view pb mine \<rho> s s'"
proof (cases t)
  case (KvOpTask req r d)
  have d: "\<rho> d = Some r" "d \<notin> set (peer_pending s 1)" "d \<notin> set (ran s)"
    using assms(5,6) tasks KvOpTask by (auto simp: calls_match_def server_inv_def held_def)
  have "KvOpCb jr pb req r d (s\<lparr>loop_tasks := ts @ us\<rparr>) = Inr s'"
    using assms(8) KvOpTask by (simp add: run_task_def)
  then show ?thesis
  proof (cases rule: KvOpCb_Inr)
    case (rejected p)
    then show ?thesis
      using reject_client [OF assms(4) d(1,2) tasks [unfolded KvOpTask] rejected(3)] by blast
  next
    case (proposed p p')
    then have p: "local_peers s 1 = Some p" and s': "s' = s\<lparr>loop_tasks := ts @ us, local_peers := (local_peers s)(1 \<mapsto> p')\<rparr>"
      by simp_all
    then have "raw_node p \<in> R 1"
      using assms(3) by blast
    from propose_client [OF assms(1) raft this assms(4) d p proposed(2,3) tasks [unfolded KvOpTask] s' assms(9)] show ?thesis .
  qed
next
  case (RaftMsgTask req d)
  have d: "\<rho> d = None"
    using assms(5) tasks RaftMsgTask by (auto simp: calls_match_def)
  have "HandleRaftMsgCb jr req d (s\<lparr>loop_tasks := ts @ us\<rparr>) = Inr s'"
    using assms(8) RaftMsgTask by (simp add: run_task_def)
  then obtain p e p' where p: "local_peers s (meta_peer_id (to_peer req)) = Some p" "Step jr (raft_msg req) p = (e, p')"
    and s': "s' = Run d (s\<lparr>loop_tasks := ts @ us, local_peers := (local_peers s)(meta_peer_id (to_peer req) \<mapsto> p')\<rparr>)"
    by (cases rule: HandleRaftMsgCb_Inr) auto
  have p': "p' = p\<lparr>raw_node := snd (rn_Step jr (raw_node p) (raft_msg req))\<rparr>"
    using p(2) by (auto simp: Step_def split: prod.splits)
  show ?thesis
  proof (rule client_unseen [OF _ _ _ _ assms(4)])
    fix q
    assume q: "local_peers s 1 = Some q"
    then have "raw_node q \<in> R 1"
      using assms(3) by blast
    with q show "\<exists>n. local_peers s' 1 = Some (q\<lparr>raw_node := n\<rparr>) \<and> mine (raw_node q) \<subseteq>\<^sub>m mine n
        \<and> node_move jr (raw_node q) n []"
      using p(1) p' raft_filesD(2) [OF raft, of "raw_node q" "raft_msg req"]
      by (cases "meta_peer_id (to_peer req) = 1") (auto simp: s' intro: node_move.stepped)
  qed (use d p(1) s' tasks RaftMsgTask in \<open>auto simp: ran_def split: if_splits\<close>)
qed

text \<open>A peer without pending proposals answers nothing.\<close>

lemma ProcessEntries_idle:
  assumes "leveldb_contract ldb view" and "ProcessEntries jr ldb pb es (p, s) = Inr (p', s')" and "proposals p = []"
  shows "runs s' = runs s \<and> resps s' = resps s"
proof -
  let ?I = "\<lambda>st. proposals (fst st) = [] \<and> runs (snd st) = runs s \<and> resps (snd st) = resps s"
  have "?I (p', s')"
  proof (rule ofold_invariant [where I = ?I])
    show "ofold (ProcessEntry jr ldb pb) es (p, s) = Inr (p', s')"
      using assms(2) by (simp add: ProcessEntries_def)
  next
    fix e st st'
    assume I: "?I st" and e: "ProcessEntry jr ldb pb e st = Inr st'"
    obtain f p1 s1 where c: "claim_proposal jr e (fst st, snd st) = (f, p1, s1)"
      by (cases "claim_proposal jr e (fst st, snd st)") auto
    then have "f = None" "proposals p1 = []" "s1 = snd st"
      using claim_proposal_queue [OF c] I by (auto split: option.splits)
    moreover have half: "(if entry_type e = kEntryNormal then ProcessNormal ldb pb e f (p1, s1) else ProcessConfChange e f (p1, s1))
        = Inr (fst st', snd st')"
      using e c by (simp add: ProcessEntry_def)
    ultimately show "?I st'"
      using apply_half(1,2) [OF assms(1) half] I by simp
  qed (use assms(3) in simp)
  then show ?thesis
    by simp
qed

lemma Tick_idle:
  assumes "leveldb_contract ldb view" and "Tick jr ldb pb connect (p, s) = Inr (p', s')" and "proposals p = []"
  shows "runs s' = runs s \<and> resps s' = resps s"
  using assms(2)
proof (cases rule: Tick_cases)
  case silent
  then show ?thesis
    using assms(2) by (simp add: Tick_def HandleRaftReady_def)
next
  case (ready n rd q s1)
  then show ?thesis
    using ProcessEntries_idle [OF assms(1) ready(4)] assms(3) by simp
qed

lemma timer_client:
  fixes s :: "('rn, 'db, 'ms) server"
  assumes "leveldb_contract ldb view" and raft: "raft_files jr mine (R 1)" and "raw_node p \<in> R i"
    and "clients_filed mine \<rho> s" and "server_inv s" and p: "local_peers s i = Some p"
    and "with_peer i (Tick jr ldb pb connect) p s = Inr s'"
  shows "client_move jr view pb mine \<rho> s s'"
proof -
  obtain p' s1 where T: "Tick jr ldb pb connect (p, s) = Inr (p', s1)"
    and s': "s' = s1\<lparr>local_peers := (local_peers s1)(i \<mapsto> p')\<rparr>"
    using assms(7) by (auto simp: with_peer_def)
  have same: "local_peers s1 = local_peers s" "loop_tasks s1 = loop_tasks s"
    using Tick_frame [OF T] by (auto intro: net_more_server)
  show ?thesis
  proof (cases "i = 1")
    case True
    have "filed \<rho> (mine (raw_node p)) (proposals p) s"
      using assms(4) p True by (simp add: clients_filed_def)
    moreover have "filed \<rho> g qs s' \<longleftrightarrow> filed \<rho> g qs s1" "seen pb \<rho> W g m qs s' = seen pb \<rho> W g m qs s1" for g qs W m
      by (simp_all add: s' filed_def seen_def ran_def)
    ultimately show ?thesis
      using Tick_seen [OF assms(1) raft assms(3) [unfolded True] T, of \<rho> "queued_calls (loop_tasks s)"] p True same
      by (simp add: client_move_def client_view_def clients_filed_def s') blast
  next
    case False
    then have "proposals p = []"
      using assms(5) p by (simp add: server_inv_def)
    note idle = Tick_idle [OF assms(1) T this]
    then have "ran s1 = ran s"
      using ran_cong by blast
    with idle show ?thesis
      by (intro client_unseen [OF _ _ _ _ assms(4)])
        (use False in \<open>auto simp: s' same ran_def\<close>)
  qed
qed

text \<open>The hypotheses of the simulation together with its invariant.\<close>

definition serving :: "'db leveldb \<Rightarrow> ('db \<Rightarrow> bytes \<rightharpoonup> bytes) \<Rightarrow> ('rn, 'ms) jraft \<Rightarrow> pb_codec \<Rightarrow> ('rn \<Rightarrow> filing)
    \<Rightarrow> (PeerId \<Rightarrow> 'rn set) \<Rightarrow> calls \<Rightarrow> ('rn, 'db, 'ms) server \<Rightarrow> bool" where
  "serving ldb view jr pb mine R \<rho> s \<longleftrightarrow> leveldb_contract ldb view \<and> codec_contract pb \<and> raft_files jr mine (R 1)
     \<and> server_inv s \<and> clients_filed mine \<rho> s"

lemma client_step_seen:
  fixes s :: "('rn, 'db, 'ms) server"
  assumes "serving ldb view jr pb mine R \<rho> s" and "client_step jr ldb pb connect R \<rho> s s'"
  shows "client_move jr view pb mine \<rho> s s'"
proof -
  note laws = assms(1) [unfolded serving_def]
  have store: "leveldb_contract ldb view" and codec: "codec_contract pb" and raft: "raft_files jr mine (R 1)"
    and inv: "server_inv s" and filed: "clients_filed mine \<rho> s"
    using laws by blast+
  have nodes: "\<forall>i p. local_peers s i = Some p \<longrightarrow> raw_node p \<in> R i" and match: "calls_match \<rho> s"
    and step: "server_step jr ldb pb connect s s'" and kept: "undropped jr s s'"
    using assms(2) unfolding client_step_def by blast+
  from step show ?thesis
  proof cases
    case (kv_arrives d req resp)
    then have "clients_filed mine \<rho> s'"
      using filed by (simp add: clients_filed_def KvOp_def RunInLoop_def filed_def ran_def split: option.splits)
    then show ?thesis
      using client_arrival [OF kv_arrives(2), of view pb mine \<rho> req resp] kv_arrives(1)
      by (intro client_move_quiet) (auto simp: KvOp_def RunInLoop_def intro: node_move.same)
  next
    case (raft_arrives d req)
    then have "s' = RunInLoop (RaftMsgTask req d) s"
      by (auto simp: HandleRaftMsg_def split: if_splits)
    then show ?thesis
      using client_unseen [OF _ _ _ _ filed, of s' jr view pb] by (auto simp: RunInLoop_def ran_def)
  next
    case (task_runs ts t us)
    then show ?thesis
      using task_client [OF codec raft nodes filed match inv _ _ kept] by blast
  next
    case (timer_fires i p)
    then show ?thesis
      using timer_client [of ldb view jr mine R p i \<rho> s pb connect s'] store raft filed inv nodes by blast
  next
    case (reply_arrives xs cntl resp ys)
    then show ?thesis
      using client_unseen [OF _ _ _ _ filed, of s' jr view pb]
      by (auto simp: HandleSendMsg2Peer_def delete_object_def ran_def split: if_splits)
  qed
qed

interpretation clients: forward_simulation "client_step jr ldb pb connect R \<rho>" atomic_step "client_view view pb mine \<rho>"
  "serving ldb view jr pb mine R \<rho>" for jr ldb pb connect R \<rho> view mine
proof
  fix s s'
  assume inv: "serving ldb view jr pb mine R \<rho> s" and step: "client_step jr ldb pb connect R \<rho> s s'"
  show "serving ldb view jr pb mine R \<rho> s'"
    using inv step client_step_seen [OF inv step] server_step_inv(1) [of jr ldb pb connect s s']
    unfolding serving_def client_step_def client_move_def by blast
  show "atomic_step\<^sup>*\<^sup>* (client_view view pb mine \<rho> s) (client_view view pb mine \<rho> s')"
    using client_step_seen [OF inv step] entries_run_atomic unfolding client_move_def by blast
qed

lemma serving_start:
  assumes "leveldb_contract ldb view" and "codec_contract pb" and "raft_files jr mine (R 1)"
    and "server_start s0" and "inj_on \<rho> (dom \<rho>)" and "\<forall>r. fresh_resp (resps s0 r)"
  shows "serving ldb view jr pb mine R \<rho> s0" "atomic_inv (client_view view pb mine \<rho> s0)"
    "at_waiting (client_view view pb mine \<rho> s0) = {#}" "at_answered (client_view view pb mine \<rho> s0) = []"
proof -
  have start: "runs s0 = []" "loop_tasks s0 = []" "\<And>p. local_peers s0 1 = Some p \<Longrightarrow> proposals p = []"
    using assms(4) by (auto simp: server_start_def)
  then show "at_waiting (client_view view pb mine \<rho> s0) = {#}" "at_answered (client_view view pb mine \<rho> s0) = []"
    by (auto simp: client_view_def seen_def split: option.splits)
  then show "atomic_inv (client_view view pb mine \<rho> s0)"
    by (simp add: atomic_inv_def)
  show "serving ldb view jr pb mine R \<rho> s0"
    using assms start server_start_inv [OF assms(4)]
    by (auto simp: serving_def clients_filed_def filed_def ran_def split: option.splits)
qed

text \<open>A queued call waits; a closure that has run has answered its call.\<close>

lemma client_view_waits:
  "KvOpTask req r d \<in> set (loop_tasks s) \<Longrightarrow> (d, req_op req) \<in># at_waiting (client_view view pb mine \<rho> s)"
  by (auto simp: client_view_def seen_def Let_def dest: queued_call split: option.splits)

lemma client_view_answer:
  "\<rho> d = Some r \<Longrightarrow> (d, h) \<in> set (runs s) \<Longrightarrow> (d, reply_answer (h r)) \<in> set (at_answered (client_view view pb mine \<rho> s))"
  by (auto simp: client_view_def seen_def Let_def dest: client_answer split: option.splits)

section \<open>Properties\<close>



text \<open>A read of a present key is queued, proposed, committed and answered.\<close>

definition line_mine :: "Entry list \<times> nat \<Rightarrow> filing" where
  "line_mine n = (\<lambda>(i, trm). if trm = 1 \<and> i \<noteq> 0 \<and> unat i \<le> length (fst n) then Some (entry_data (fst n ! (unat i - 1))) else None)"

definition get_nodes :: "(Entry list \<times> nat) set" where
  "get_nodes = {([], 0), ([demo_entry 1 1 ''ga''], 0), ([demo_entry 1 1 ''ga''], 1)}"

lemma line_raft_files: "raft_files line_raft line_mine get_nodes"
  unfolding raft_files_def
  by (auto simp: line_raft_def line_mine_def get_nodes_def map_le_def nth_append ready_of_def entry_filed_def
      stored_node_def demo_entry_def no_ready_def unat_eq_zero split: if_splits)

text \<open>The assumption on the Raft library admits a node that drops proposals once its log is full.\<close>

lemma full_raft_files:
  fixes full :: "(Entry list \<times> nat, Snapshot) jraft"
  assumes "full = line_raft\<lparr>rn_Propose := \<lambda>n x. if length (fst n) < 1 then rn_Propose line_raft n x else n\<rparr>"
  shows "raft_files full line_mine get_nodes" "rn_IsLeader full ([demo_entry 1 1 ''ga''], 0)"
    "\<not> propose_accepted full ([demo_entry 1 1 ''ga''], 0) x"
proof -
  show "raft_files full line_mine get_nodes"
    unfolding raft_files_def assms
    by (auto simp: line_raft_def line_mine_def get_nodes_def map_le_def nth_append ready_of_def entry_filed_def
        stored_node_def propose_accepted_def demo_entry_def no_ready_def unat_eq_zero split: if_splits)
qed (simp_all add: assms line_raft_def propose_accepted_def)

lemma get_tick:
  "with_peer 1 (Tick line_raft mem_leveldb demo_codec (\<lambda>_. 0))
       (line_peer [demo_entry 1 1 ''ga''] 0 [(''a'', ''1'')] [new_Proposal 1 1 4 8])
       (line_server [demo_entry 1 1 ''ga''] 0 [(''a'', ''1'')] [new_Proposal 1 1 4 8] []) =
     Inr (Run 8 (set_get_value 4 ''1'' (line_server [demo_entry 1 1 ''ga''] 1 [(''a'', ''1'')] [] [])))"
  by (simp add: with_peer_def Tick_def HandleRaftReady_def line_raft_def line_server_def line_peer_def Run_def
      set_get_value_def no_ready_def peer_eval demo_entry_def demo_codec_defs store_eval new_Proposal_def)

lemma get_task:
  "run_task line_raft demo_codec (KvOpTask (mk_get ''a'') 4 8) (line_server [] 0 [(''a'', ''1'')] [] []) =
     Inr (line_server [demo_entry 1 1 ''ga''] 0 [(''a'', ''1'')] [new_Proposal 1 1 4 8] [])"
  by (simp add: run_task_def KvOpCb_def mutable_local_peers_def with_peer_def line_server_def line_peer_def
      ProposeKvOp_def IsLeader_def line_raft_def Let_def NextProposalIndex_def Term_def demo_codec_def demo_print_def)

lemma line_arrives:
  assumes "(l, a) \<in> N"
  shows "client_step line_raft mem_leveldb demo_codec (\<lambda>_. 0) (\<lambda>_. N) [8 \<mapsto> 4] (line_server l a d [] [])
    (line_server l a d [] [KvOpTask req 4 8])"
proof -
  have "KvOp req 4 8 (line_server l a d [] []) = line_server l a d [] [KvOpTask req 4 8]"
    "8 \<notin> set (held (line_server l a d [] []))"
    by (simp_all add: KvOp_def RunInLoop_def line_server_def line_peer_def held_def ran_def peer_pending_def)
  then have "server_step line_raft mem_leveldb demo_codec (\<lambda>_. 0) (line_server l a d [] []) (line_server l a d [] [KvOpTask req 4 8])"
    by (metis kv_arrives)
  with assms show ?thesis
    by (auto simp: client_step_def line_undropped calls_match_def line_server_def line_peer_def split: if_splits)
qed

lemma line_runs_task:
  assumes "(l, a) \<in> N" and "run_task line_raft demo_codec (KvOpTask req 4 8) (line_server l a d [] []) = Inr s'"
  shows "client_step line_raft mem_leveldb demo_codec (\<lambda>_. 0) (\<lambda>_. N) [8 \<mapsto> 4] (line_server l a d [] [KvOpTask req 4 8]) s'"
proof -
  have "server_step line_raft mem_leveldb demo_codec (\<lambda>_. 0) (line_server l a d [] [KvOpTask req 4 8]) s'"
    by (rule task_runs [of _ "[]" "KvOpTask req 4 8" "[]"]) (use assms(2) in \<open>simp_all add: line_server_def\<close>)
  with assms(1) show ?thesis
    by (auto simp: client_step_def line_undropped calls_match_def line_server_def line_peer_def split: if_splits)
qed

lemma line_ticks:
  assumes "(l, a) \<in> N"
    and "with_peer 1 (Tick line_raft mem_leveldb demo_codec (\<lambda>_. 0)) (line_peer l a d q) (line_server l a d q []) = Inr s'"
  shows "client_step line_raft mem_leveldb demo_codec (\<lambda>_. 0) (\<lambda>_. N) [8 \<mapsto> 4] (line_server l a d q []) s'"
proof -
  have "server_step line_raft mem_leveldb demo_codec (\<lambda>_. 0) (line_server l a d q []) s'"
    by (rule timer_fires [OF _ line_server_peer assms(2)]) (simp add: line_server_def)
  with assms(1) show ?thesis
    by (auto simp: client_step_def line_undropped calls_match_def line_server_def line_peer_def split: if_splits)
qed

lemma get_run:
  "(client_step line_raft mem_leveldb demo_codec (\<lambda>_. 0) (\<lambda>_. get_nodes) [8 \<mapsto> 4])\<^sup>*\<^sup>*
     (line_server [] 0 [(''a'', ''1'')] [] []) (line_server [] 0 [(''a'', ''1'')] [] [KvOpTask (mk_get ''a'') 4 8])"
  "(client_step line_raft mem_leveldb demo_codec (\<lambda>_. 0) (\<lambda>_. get_nodes) [8 \<mapsto> 4])\<^sup>*\<^sup>*
     (line_server [] 0 [(''a'', ''1'')] [] [KvOpTask (mk_get ''a'') 4 8])
     (Run 8 (set_get_value 4 ''1'' (line_server [demo_entry 1 1 ''ga''] 1 [(''a'', ''1'')] [] [])))"
  using line_arrives [of "[]" 0 get_nodes] line_runs_task [OF _ get_task, of get_nodes] line_ticks [OF _ get_tick, of get_nodes]
  by (auto simp: get_nodes_def intro: converse_rtranclp_into_rtranclp)

lemma get_start:
  "server_start (line_server [] 0 [(''a'', ''1'')] [] [])" "\<forall>r. fresh_resp (resps (line_server [] 0 [(''a'', ''1'')] [] []) r)"
  by (simp_all add: server_start_def line_server_def line_peer_def host_ok_def local_peer_ok_def members_ok_def
      demo_member_def host_id_def host_db_path_def fresh_resp_def default_KvResp_def)

lemma one_call: "inj_on [8 \<mapsto> 4] (dom [8 \<mapsto> 4])"
  by simp



end
