(* ===== verification/Log_Positions.thy ===== *)
theory Log_Positions
  imports Atomic_Refinement Server_Order
begin

text \<open>
  The clients of a whole group. Each server is an atomic store of its own (\<open>Atomic_Refinement\<close>); here
  the atomic stores of a group are tied together by the log that their Raft nodes hand out. Every
  answer that is not a rejection belongs to one position of the log, and a call that arrives once a
  server has applied what another server has answered gets a later position.
\<close>

section \<open>A server follows the log\<close>

definition position :: "('rn \<Rightarrow> nat) \<Rightarrow> ('rn, 'db, 'ms) server \<Rightarrow> nat" where
  "position applied s = (case local_peers s 1 of None \<Rightarrow> 0 | Some p \<Rightarrow> applied (raw_node p))"

interpretation logged: forward_simulation "client_step jr ldb pb connect R \<rho>" "log_step (\<lambda>j. entry_op pb (LOG j))"
  "\<lambda>s. (client_view view pb mine \<rho> s, position applied s)"
  "\<lambda>s. serving ldb view jr pb mine R \<rho> s \<and> raft_delivers jr applied LOG (R 1)"
  for jr ldb pb connect R \<rho> LOG view mine applied
proof
  fix s s'
  let ?cmd = "\<lambda>j. entry_op pb (LOG j)"
  assume inv: "serving ldb view jr pb mine R \<rho> s \<and> raft_delivers jr applied LOG (R 1)"
    and step: "client_step jr ldb pb connect R \<rho> s s'"
  then show "serving ldb view jr pb mine R \<rho> s' \<and> raft_delivers jr applied LOG (R 1)"
    using clients.keeps by blast
  obtain es where run: "entries_run (map (entry_op pb) es) (client_view view pb mine \<rho> s) (client_view view pb mine \<rho> s')"
    and node: "case local_peers s 1 of None \<Rightarrow> local_peers s' 1 = None \<and> es = []
      | Some p \<Rightarrow> (\<exists>p'. local_peers s' 1 = Some p' \<and> node_move jr (raw_node p) (raw_node p') es)"
    using client_step_seen [OF inv [THEN conjunct1] step] unfolding client_move_def by blast
  let ?n = "position applied s"
  have "es = map LOG [?n..<?n + length es] \<and> position applied s' = ?n + length es"
  proof (cases "local_peers s 1")
    case None
    then show ?thesis
      using node by (simp add: position_def)
  next
    case (Some p)
    then obtain p' where p': "local_peers s' 1 = Some p'" "node_move jr (raw_node p) (raw_node p') es"
      using node by auto
    have "raw_node p \<in> R 1"
      using step Some unfolding client_step_def by blast
    from node_move_delivers [OF p'(2) inv [THEN conjunct2] this] show ?thesis
      using Some p'(1) by (simp add: position_def)
  qed
  then have es: "es = map LOG [?n..<?n + length es]" and pos: "position applied s' = ?n + length es"
    by blast+
  have "map (entry_op pb) es = map ?cmd [?n..<?n + length es]"
    using arg_cong [OF es, of "map (entry_op pb)"] by (simp add: comp_def)
  with run show "(log_step ?cmd)\<^sup>*\<^sup>* (client_view view pb mine \<rho> s, ?n) (client_view view pb mine \<rho> s', position applied s')"
    unfolding pos by (intro entries_run_log) simp
qed

lemma cmd_effect_replay: "fold cmd_effect (map (\<lambda>j. entry_op pb (LOG j)) js) m = replay pb (map LOG js) m"
  by (induction js arbitrary: m) (simp_all add: cmd_effect_def entry_effect_def)

section \<open>Calls at their positions\<close>

text \<open>
  A server of the group, started with the contents \<open>m0\<close>, in which the call \<open>d\<close> of the command \<open>c\<close> has
  arrived in the state \<open>s\<close> and been answered \<open>x\<close> by the state \<open>t\<close>.
\<close>

definition call_answered :: "'db leveldb \<Rightarrow> ('db \<Rightarrow> bytes \<rightharpoonup> bytes) \<Rightarrow> ('rn, 'ms) jraft \<Rightarrow> pb_codec \<Rightarrow> (RpcClient \<Rightarrow> int)
    \<Rightarrow> (PeerId \<Rightarrow> 'rn set) \<Rightarrow> calls \<Rightarrow> (bytes \<rightharpoonup> bytes) \<Rightarrow> ('rn \<Rightarrow> nat)
    \<Rightarrow> ('rn, 'db, 'ms) server \<Rightarrow> ('rn, 'db, 'ms) server \<Rightarrow> closure_ptr \<Rightarrow> store_op \<Rightarrow> answer \<Rightarrow> bool" where
  "call_answered ldb view jr pb connect R \<rho> m0 applied s t d c x \<longleftrightarrow>
     (\<exists>s0 p0. server_start s0 \<and> local_peers s0 1 = Some p0 \<and> applied (raw_node p0) = 0
        \<and> disk_contents view (kv_db p0) = m0 \<and> (\<forall>r. fresh_resp (resps s0 r))
        \<and> (client_step jr ldb pb connect R \<rho>)\<^sup>*\<^sup>* s0 s) \<and> (client_step jr ldb pb connect R \<rho>)\<^sup>*\<^sup>* s t
     \<and> inj_on \<rho> (dom \<rho>) \<and> calls_match \<rho> s
     \<and> (\<exists>req r h. KvOpTask req r d \<in> set (loop_tasks s) \<and> req_op req = Some c \<and> (d, h) \<in> set (runs t)
        \<and> x = reply_answer (h r))"

lemma call_position:
  assumes "leveldb_contract ldb view" and "codec_contract pb" and "raft_files jr mine (R 1)"
    and "raft_delivers jr applied LOG (R 1)"
    and "call_answered ldb view jr pb connect R \<rho> m0 applied s t d c x" and "x \<noteq> Rejected"
  shows "\<exists>j. position applied s \<le> j \<and> j < position applied t \<and> entry_op pb (LOG j) = Some c
    \<and> op_enabled c (replay pb (map LOG [0..<j]) m0) \<and> x = op_answer c (replay pb (map LOG [0..<j]) m0)"
proof -
  let ?cmd = "\<lambda>j. entry_op pb (LOG j)" and ?a = "\<lambda>s. (client_view view pb mine \<rho> s, position applied s)"
  obtain s0 p0 req r h where s0: "server_start s0" "local_peers s0 1 = Some p0" "applied (raw_node p0) = 0"
    "disk_contents view (kv_db p0) = m0" "\<forall>r. fresh_resp (resps s0 r)" "(client_step jr ldb pb connect R \<rho>)\<^sup>*\<^sup>* s0 s"
    and t: "(client_step jr ldb pb connect R \<rho>)\<^sup>*\<^sup>* s t" "inj_on \<rho> (dom \<rho>)" "calls_match \<rho> s"
    and d: "KvOpTask req r d \<in> set (loop_tasks s)" "req_op req = Some c" "(d, h) \<in> set (runs t)" "x = reply_answer (h r)"
    using assms(5) unfolding call_answered_def by blast
  note start = serving_start [OF assms(1,2), of jr mine R s0 \<rho>, OF assms(3) s0(1) t(2) s0(5)]
  have inv0: "serving ldb view jr pb mine R \<rho> s0 \<and> raft_delivers jr applied LOG (R 1)"
    using start(1) assms(4) by blast
  note run0 = logged.run_simulates [OF s0(6) inv0] and run = logged.run_simulates [OF t(1) logged.run_keeps [OF s0(6) inv0]]
  have zero: "position applied s0 = 0" "at_store (client_view view pb mine \<rho> s0) = m0"
    using s0(2-4) by (simp_all add: position_def client_view_def seen_def)
  have store: "at_store (client_view view pb mine \<rho> s) = replay pb (map LOG [0..<position applied s]) m0"
    using log_run_store [OF run0] zero by (simp add: cmd_effect_replay)
  have inv: "atomic_inv (fst (?a s))"
    using log_run_inv [OF run0] start(2) by simp
  have waits: "(d, Some c) \<in># at_waiting (fst (?a s))"
    using client_view_waits [OF d(1)] d(2) by simp
  have "\<rho> d = Some r"
    using t(3) d(1) by (auto simp: calls_match_def)
  then have answered: "(d, x) \<in> set (at_answered (fst (?a t)))"
    using client_view_answer [OF _ d(3)] d(4) by simp
  from log_answer_served [OF run inv waits answered assms(6)]
  obtain j where j: "position applied s \<le> j" "j < position applied t" "?cmd j = Some c"
    "op_enabled c (replay pb (map LOG [position applied s..<j]) (at_store (client_view view pb mine \<rho> s)))"
    "x = op_answer c (replay pb (map LOG [position applied s..<j]) (at_store (client_view view pb mine \<rho> s)))"
    by (auto simp: cmd_effect_replay)
  have "map LOG [0..<j] = map LOG [0..<position applied s] @ map LOG [position applied s..<j]"
    using upt_add_eq_append [of 0 "position applied s" "j - position applied s"] j(1) by simp
  then have "replay pb (map LOG [position applied s..<j]) (at_store (client_view view pb mine \<rho> s)) = replay pb (map LOG [0..<j]) m0"
    by (simp add: store replay_append)
  with j show ?thesis
    by auto
qed

section \<open>Properties\<close>

text \<open>
  C4: the servers of a group serve their clients from one log. Take two servers of a group that hand
  out the same log over equal contents at the start, each in an execution in which its Raft node
  drops none of its proposals, and on each a call that was answered without a rejection. If the second call arrived when its server had been handed at least the entries that the
  first server had been handed when it had answered the first call, then the calls have positions
  in the log in this order, each entry there carries the call's own command, and each answer is that
  of the command on the replay of all entries before it. So a Get after a Put of the same key is
  answered with the value put, unless an entry between the two writes the key.
\<close>

theorem group_calls_linearised:
  fixes s t :: "('rn, 'db, 'ms) server" and s' t' :: "('rn2, 'db2, 'ms2) server"
  assumes "leveldb_contract ldb view" and "codec_contract pb" and "raft_files jr mine (R 1)"
    and "raft_delivers jr applied LOG (R 1)"
    and "call_answered ldb view jr pb connect R \<rho> m0 applied s t d c x" and "x \<noteq> Rejected"
    and "leveldb_contract ldb' view'" and "raft_files jr' mine' (R' 1)" and "raft_delivers jr' applied' LOG (R' 1)"
    and "call_answered ldb' view' jr' pb connect' R' \<rho>' m0 applied' s' t' d' c' x'" and "x' \<noteq> Rejected"
    and "position applied t \<le> position applied' s'"
  shows "\<exists>j j'. j < j' \<and> entry_op pb (LOG j) = Some c \<and> x = op_answer c (replay pb (map LOG [0..<j]) m0)
    \<and> entry_op pb (LOG j') = Some c' \<and> x' = op_answer c' (replay pb (map LOG [0..<j']) m0)
    \<and> (\<forall>k v. c = SPut k v \<and> c' = SGet k \<and> (\<forall>l. j < l \<and> l < j' \<longrightarrow> written pb k (LOG l) = None) \<longrightarrow> x' = Value v)"
proof -
  obtain j where j: "j < position applied t" "entry_op pb (LOG j) = Some c" "x = op_answer c (replay pb (map LOG [0..<j]) m0)"
    using call_position [OF assms(1-6)] by blast
  obtain j' where j': "position applied' s' \<le> j'" "entry_op pb (LOG j') = Some c'"
    "x' = op_answer c' (replay pb (map LOG [0..<j']) m0)"
    using call_position [OF assms(7,2,8-11)] by blast
  have less: "j < j'"
    using j(1) j'(1) assms(12) by simp
  have "x' = Value v" if put: "c = SPut k v" "c' = SGet k" and no: "\<forall>l. j < l \<and> l < j' \<longrightarrow> written pb k (LOG l) = None" for k v
  proof -
    have "written pb k (LOG j) = Some (Some v)"
      using j(2) put(1) by (simp add: written_def)
    then have "last_written pb k (map LOG [0..<j']) = Some (Some v)"
      using last_written_at [OF less, of pb k LOG] no by blast
    then show ?thesis
      using j'(3) put(2) by (simp add: replay_last_written)
  qed
  with less j j' show ?thesis
    by blast
qed

text \<open>One server serves the Put, another one, which applied it as a follower would, the Get.\<close>

definition pair_nodes :: "(Entry list \<times> nat) set" where
  "pair_nodes = {([], 0), ([demo_entry 1 1 ''p1,a1''], 0), ([demo_entry 1 1 ''p1,a1''], 1), (demo_log, 1), (demo_log, 2)}"

lemma pair_raft:
  "raft_files line_raft line_mine pair_nodes" "raft_delivers line_raft snd ((!) demo_log) pair_nodes"
proof -
  show "raft_files line_raft line_mine pair_nodes"
    unfolding raft_files_def
    by (auto simp: line_raft_def line_mine_def pair_nodes_def map_le_def ready_of_def entry_filed_def
        stored_node_def no_ready_def unat_eq_zero nth_append nth_Cons' demo_log_def demo_entry_def split: if_splits)
  have "pair_nodes \<subseteq> line_nodes"
    by (auto simp: pair_nodes_def line_nodes_def demo_log_def)
  then show "raft_delivers line_raft snd ((!) demo_log) pair_nodes"
    using line_raft_delivers unfolding raft_delivers_def by blast
qed

lemma pair_tasks:
  "run_task line_raft demo_codec (KvOpTask (mk_put ''a'' ''1'') 4 8) (line_server [] 0 [] [] []) =
     Inr (line_server [demo_entry 1 1 ''p1,a1''] 0 [] [new_Proposal 1 1 4 8] [])"
  "run_task line_raft demo_codec (KvOpTask (mk_get ''a'') 4 8) (line_server [demo_entry 1 1 ''p1,a1''] 1 [(''a'', ''1'')] [] []) =
     Inr (line_server demo_log 1 [(''a'', ''1'')] [new_Proposal 2 1 4 8] [])"
proof -
  note defs = run_task_def KvOpCb_def mutable_local_peers_def with_peer_def line_server_def line_peer_def
    ProposeKvOp_def IsLeader_def line_raft_def Let_def NextProposalIndex_def Term_def demo_codec_def demo_log_def
  show "run_task line_raft demo_codec (KvOpTask (mk_put ''a'' ''1'') 4 8) (line_server [] 0 [] [] []) =
      Inr (line_server [demo_entry 1 1 ''p1,a1''] 0 [] [new_Proposal 1 1 4 8] [])"
    by (simp add: defs demo_print_put)
  show "run_task line_raft demo_codec (KvOpTask (mk_get ''a'') 4 8) (line_server [demo_entry 1 1 ''p1,a1''] 1 [(''a'', ''1'')] [] []) =
      Inr (line_server demo_log 1 [(''a'', ''1'')] [new_Proposal 2 1 4 8] [])"
    by (simp add: defs demo_print_def)
qed

lemma pair_ticks:
  "with_peer 1 (Tick line_raft mem_leveldb demo_codec (\<lambda>_. 0)) (line_peer [demo_entry 1 1 ''p1,a1''] 0 [] [new_Proposal 1 1 4 8])
       (line_server [demo_entry 1 1 ''p1,a1''] 0 [] [new_Proposal 1 1 4 8] []) =
     Inr (Run 8 (line_server [demo_entry 1 1 ''p1,a1''] 1 [(''a'', ''1'')] [] []))"
  "with_peer 1 (Tick line_raft mem_leveldb demo_codec (\<lambda>_. 0)) (line_peer [demo_entry 1 1 ''p1,a1''] 0 [] [])
       (line_server [demo_entry 1 1 ''p1,a1''] 0 [] [] []) = Inr (line_server [demo_entry 1 1 ''p1,a1''] 1 [(''a'', ''1'')] [] [])"
  "with_peer 1 (Tick line_raft mem_leveldb demo_codec (\<lambda>_. 0)) (line_peer demo_log 1 [(''a'', ''1'')] [new_Proposal 2 1 4 8])
       (line_server demo_log 1 [(''a'', ''1'')] [new_Proposal 2 1 4 8] []) =
     Inr (Run 8 (set_get_value 4 ''1'' (line_server demo_log 2 [(''a'', ''1'')] [] [])))"
  by (simp_all add: with_peer_def Tick_def HandleRaftReady_def line_raft_def demo_log_def line_server_def line_peer_def
      no_ready_def peer_eval demo_entry_def demo_codec_defs store_eval new_Proposal_def Run_def set_get_value_def numeral_2_eq_2)

lemma pair_start:
  "server_start (line_server l 0 [] [] [])" "\<forall>r. fresh_resp (resps (line_server l 0 [] [] []) r)"
  by (simp_all add: server_start_def line_server_def line_peer_def host_ok_def local_peer_ok_def members_ok_def
      demo_member_def host_id_def host_db_path_def fresh_resp_def default_KvResp_def)

lemma pair_calls:
  "call_answered mem_leveldb map_of line_raft demo_codec (\<lambda>_. 0) (\<lambda>_. pair_nodes) [8 \<mapsto> 4] Map.empty snd
     (line_server [] 0 [] [] [KvOpTask (mk_put ''a'' ''1'') 4 8])
     (Run 8 (line_server [demo_entry 1 1 ''p1,a1''] 1 [(''a'', ''1'')] [] [])) 8 (SPut ''a'' ''1'') Done"
  "call_answered mem_leveldb map_of line_raft demo_codec (\<lambda>_. 0) (\<lambda>_. pair_nodes) [8 \<mapsto> 4] Map.empty snd
     (line_server [demo_entry 1 1 ''p1,a1''] 1 [(''a'', ''1'')] [] [KvOpTask (mk_get ''a'') 4 8])
     (Run 8 (set_get_value 4 ''1'' (line_server demo_log 2 [(''a'', ''1'')] [] []))) 8 (SGet ''a'') (Value ''1'')"
proof -
  let ?C = "client_step line_raft mem_leveldb demo_codec (\<lambda>_. 0) (\<lambda>_. pair_nodes) [8 \<mapsto> 4]"
  have nodes: "([], 0) \<in> pair_nodes" "([demo_entry 1 1 ''p1,a1''], 0) \<in> pair_nodes"
    "([demo_entry 1 1 ''p1,a1''], 1) \<in> pair_nodes" "(demo_log, 1) \<in> pair_nodes"
    by (simp_all add: pair_nodes_def)
  note A = line_arrives [OF nodes(1)] line_runs_task [OF nodes(1) pair_tasks(1)] line_ticks [OF nodes(2) pair_ticks(1)]
  note B = line_ticks [OF nodes(2) pair_ticks(2)] line_arrives [OF nodes(3)]
    line_runs_task [OF nodes(3) pair_tasks(2)] line_ticks [OF nodes(4) pair_ticks(3)]
  have "?C\<^sup>*\<^sup>* (line_server [] 0 [] [] [])
      (line_server [] 0 [] [] [KvOpTask (mk_put ''a'' ''1'') 4 8])"
    "?C\<^sup>*\<^sup>*
      (line_server [] 0 [] [] [KvOpTask (mk_put ''a'' ''1'') 4 8])
      (Run 8 (line_server [demo_entry 1 1 ''p1,a1''] 1 [(''a'', ''1'')] [] []))"
    using A by (blast intro: converse_rtranclp_into_rtranclp [of ?C])+
  then show "call_answered mem_leveldb map_of line_raft demo_codec (\<lambda>_. 0) (\<lambda>_. pair_nodes) [8 \<mapsto> 4] Map.empty snd
     (line_server [] 0 [] [] [KvOpTask (mk_put ''a'' ''1'') 4 8])
     (Run 8 (line_server [demo_entry 1 1 ''p1,a1''] 1 [(''a'', ''1'')] [] [])) 8 (SPut ''a'' ''1'') Done"
    unfolding call_answered_def using pair_start [of "[]"] line_server_peer [of "[]" 0 "[]" "[]" "[]"]
    by (intro conjI exI [of _ "line_server [] 0 [] [] []"] exI [of _ "line_peer [] 0 [] []"] exI [of _ "mk_put ''a'' ''1''"])
      (auto simp: line_peer_def disk_contents_def calls_match_def line_server_def req_op_def reply_answer_def default_KvResp_def)
  have "?C\<^sup>*\<^sup>*
      (line_server [demo_entry 1 1 ''p1,a1''] 0 [] [] [])
      (line_server [demo_entry 1 1 ''p1,a1''] 1 [(''a'', ''1'')] [] [KvOpTask (mk_get ''a'') 4 8])"
    "?C\<^sup>*\<^sup>*
      (line_server [demo_entry 1 1 ''p1,a1''] 1 [(''a'', ''1'')] [] [KvOpTask (mk_get ''a'') 4 8])
      (Run 8 (set_get_value 4 ''1'' (line_server demo_log 2 [(''a'', ''1'')] [] [])))"
    using B by (blast intro: converse_rtranclp_into_rtranclp [of ?C])+
  then show "call_answered mem_leveldb map_of line_raft demo_codec (\<lambda>_. 0) (\<lambda>_. pair_nodes) [8 \<mapsto> 4] Map.empty snd
     (line_server [demo_entry 1 1 ''p1,a1''] 1 [(''a'', ''1'')] [] [KvOpTask (mk_get ''a'') 4 8])
     (Run 8 (set_get_value 4 ''1'' (line_server demo_log 2 [(''a'', ''1'')] [] []))) 8 (SGet ''a'') (Value ''1'')"
    unfolding call_answered_def
    using pair_start [of "[demo_entry 1 1 ''p1,a1'']"] line_server_peer [of "[demo_entry 1 1 ''p1,a1'']" 0 "[]" "[]" "[]"]
    by (intro conjI exI [of _ "line_server [demo_entry 1 1 ''p1,a1''] 0 [] [] []"]
        exI [of _ "line_peer [demo_entry 1 1 ''p1,a1''] 0 [] []"] exI [of _ "mk_get ''a''"])
      (auto simp: line_peer_def disk_contents_def calls_match_def line_server_def req_op_def reply_answer_def default_KvResp_def)
qed

theorem group_calls_linearised_witness:
  "\<exists>j j'. j < j' \<and> entry_op demo_codec (demo_log ! j) = Some (SPut ''a'' ''1'')
     \<and> entry_op demo_codec (demo_log ! j') = Some (SGet ''a'')
     \<and> Value ''1'' = op_answer (SGet ''a'') (replay demo_codec (map ((!) demo_log) [0..<j']) Map.empty)"
proof -
  have "position snd (Run 8 (line_server [demo_entry 1 1 ''p1,a1''] 1 [(''a'', ''1'')] [] []))
      \<le> position snd (line_server [demo_entry 1 1 ''p1,a1''] 1 [(''a'', ''1'')] [] [KvOpTask (mk_get ''a'') 4 8])"
    by (simp add: position_def line_server_def line_peer_def)
  from group_calls_linearised [where R = "\<lambda>_. pair_nodes" and R' = "\<lambda>_. pair_nodes",
      OF mem_leveldb_contract demo_codec_contract pair_raft pair_calls(1) _ mem_leveldb_contract pair_raft pair_calls(2) _ this]
  show ?thesis
    by blast
qed

end
