(* ===== verification/Obj_Pool.thy ===== *)
theory Obj_Pool
  imports Jkv_Prelude
begin

text \<open>
  The object pool of the RPC library (jrpc/base/obj\_pool.h), from which the server takes its
  controllers. Pointers are 64-bit addresses. Whether the checks run depends on the build: they
  stand inside \<^verbatim>\<open>assert\<close>, which a build with \<^verbatim>\<open>NDEBUG\<close> removes together with
  their side effects; the flag \<open>dbg\<close> says which build is meant. The constructor and
  destructor of the pooled objects are left out, and \<^verbatim>\<open>malloc\<close> of the bookkeeping arrays is
  taken to succeed; \<^verbatim>\<open>posix_memalign\<close> is the parameter \<open>memalign\<close>.
\<close>

section \<open>Allocators\<close>

text \<open>
  What a user of an allocator relies on: it hands out pointers that are not in use, takes back the
  ones in use, and the pointers in use and the free places add up to its capacity.
\<close>

locale allocator =
  fixes alloc :: "'s \<Rightarrow> ('p option \<times> 's) outcome"
    and release :: "'p \<Rightarrow> 's \<Rightarrow> 's outcome"
    and inv :: "'s \<Rightarrow> bool"
    and live :: "'s \<Rightarrow> 'p set"
    and left :: "'s \<Rightarrow> nat"
    and capacity :: "'s \<Rightarrow> nat"
  assumes alloc_Some: "inv s \<Longrightarrow> alloc s = Inr (Some p, s') \<Longrightarrow>
      p \<notin> live s \<and> live s' = insert p (live s) \<and> Suc (left s') = left s \<and> capacity s' = capacity s \<and> inv s'"
    and alloc_None: "inv s \<Longrightarrow> alloc s = Inr (None, s') \<Longrightarrow>
      left s = 0 \<and> left s' = 0 \<and> live s' = live s \<and> capacity s' = capacity s \<and> inv s'"
    and release_live: "inv s \<Longrightarrow> release p s = Inr s' \<Longrightarrow>
      p \<in> live s \<and> live s' = live s - {p} \<and> left s' = Suc (left s) \<and> capacity s' = capacity s \<and> inv s'"
    and live_finite: "inv s \<Longrightarrow> finite (live s)"
begin

text \<open>A client program: pointers obtained and returned in any order.\<close>

definition step :: "'p option \<Rightarrow> 's \<times> 'p list \<Rightarrow> ('s \<times> 'p list) outcome" where
  "step c st = (case c of
     None \<Rightarrow> obind (alloc (fst st)) (\<lambda>(p, s'). Inr (s', case p of None \<Rightarrow> snd st | Some q \<Rightarrow> q # snd st))
   | Some p \<Rightarrow> obind (release p (fst st)) (\<lambda>s'. Inr (s', removeAll p (snd st))))"

lemma step_balance:
  assumes "step c st = Inr st'" and "inv (fst st)" and "set (snd st) \<subseteq> live (fst st)" and "distinct (snd st)"
    and "card (live (fst st)) + left (fst st) = capacity (fst st)"
  shows "inv (fst st') \<and> set (snd st') \<subseteq> live (fst st') \<and> distinct (snd st')
    \<and> card (live (fst st')) + left (fst st') = capacity (fst st') \<and> capacity (fst st') = capacity (fst st)"
proof (cases c)
  case None
  then obtain p s' where a: "alloc (fst st) = Inr (p, s')"
    and st': "st' = (s', case p of None \<Rightarrow> snd st | Some q \<Rightarrow> q # snd st)"
    using assms(1) by (auto simp: step_def)
  show ?thesis
  proof (cases p)
    case None
    with alloc_None [OF assms(2)] a st' assms(3-5) show ?thesis
      by simp
  next
    case (Some q)
    with a alloc_Some [OF assms(2)] st' assms(3-5) live_finite [OF assms(2)] show ?thesis
      by auto
  qed
next
  case (Some p)
  then obtain s' where r: "release p (fst st) = Inr s'" and st': "st' = (s', removeAll p (snd st))"
    using assms(1) by (auto simp: step_def)
  note rel = release_live [OF assms(2) r]
  have "card (live s') = card (live (fst st)) - 1" "card (live (fst st)) \<noteq> 0"
    using rel live_finite [OF assms(2)] by auto
  with rel assms(5) have "card (live s') + left s' = capacity s'" "capacity s' = capacity (fst st)"
    by simp_all
  moreover have "set (removeAll p (snd st)) \<subseteq> live s'" "inv s'"
    using rel assms(3) by auto
  ultimately show ?thesis
    using assms(4) by (simp add: st' distinct_removeAll)
qed

lemma run_balance:
  assumes "ofold step cs st = Inr st'" and "inv (fst st)" and "set (snd st) \<subseteq> live (fst st)" and "distinct (snd st)"
    and "card (live (fst st)) + left (fst st) = capacity (fst st)"
  shows "inv (fst st') \<and> set (snd st') \<subseteq> live (fst st') \<and> distinct (snd st')
    \<and> card (live (fst st')) + left (fst st') = capacity (fst st') \<and> capacity (fst st') = capacity (fst st)"
  using assms
proof (induction cs arbitrary: st)
  case (Cons c cs)
  then obtain st1 where s: "step c st = Inr st1" and r: "ofold step cs st1 = Inr st'"
    by auto
  from step_balance [OF s Cons.prems(2-5)] Cons.IH [OF r] show ?case
    by simp
qed simp

end

section \<open>ObjPool\<close>

record ObjPool =
  free_list :: "u64 list" \<comment> \<open>the first \<^verbatim>\<open>free_list_size_\<close> slots of the array\<close>
  mem_ptr :: "u64 option"
  obj_cnt :: int
  real_size :: u64
  malloc_succeed_cnt :: u64
  malloc_failed_cnt :: u64
  free_cnt :: u64
  lowest_free_cnt :: int
  bitmap :: "u8 list"
  account_malloc_cnt :: "u64 list"
  account_free_cnt :: "u64 list"
  obj_size :: u64

definition new_ObjPool :: "(u64 \<Rightarrow> u64 \<Rightarrow> u64 option) \<Rightarrow> int \<Rightarrow> u64 \<Rightarrow> u64 \<Rightarrow> ObjPool outcome" where
  "new_ObjPool memalign cnt sz alignment =
     (if cnt < 0 then fatal ''vector length error''
      else if alignment = 0 then undefined_behaviour ''division by zero''
      else
        let n = nat cnt;
            total = ((sz * of_int cnt - 1) div alignment + 1) * alignment;
            s = \<lparr>free_list = [], mem_ptr = None, obj_cnt = cnt, real_size = total, malloc_succeed_cnt = 0,
                 malloc_failed_cnt = 0, free_cnt = 0, lowest_free_cnt = 2 ^ 31 - 1, bitmap = replicate n 0,
                 account_malloc_cnt = replicate n 0, account_free_cnt = replicate n 0, obj_size = sz\<rparr>
        in case memalign alignment total of
             None \<Rightarrow> Inr s
           | Some base \<Rightarrow> Inr (s\<lparr>mem_ptr := Some base, free_list := map (\<lambda>i. base + of_nat i * sz) [0..<n]\<rparr>))"

definition left_cnt :: "ObjPool \<Rightarrow> int" where
  "left_cnt s = int (length (free_list s))"

definition GetIndex :: "u64 \<Rightarrow> ObjPool \<Rightarrow> int" where
  "GetIndex p s =
     (let offset = p - (case mem_ptr s of None \<Rightarrow> 0 | Some b \<Rightarrow> b)
      in if offset \<ge> obj_size s * of_int (obj_cnt s) then - 1
         else if offset mod obj_size s \<noteq> 0 then - 2
         else sint (ucast (offset div obj_size s) :: 32 word))"

definition bump :: "nat \<Rightarrow> u64 list \<Rightarrow> u64 list" where
  "bump i xs = xs[i := xs ! i + 1]"

definition MallocCheckAndSet :: "u64 \<Rightarrow> ObjPool \<Rightarrow> (bool \<times> ObjPool) outcome" where
  "MallocCheckAndSet p s =
     (let s1 = s\<lparr>malloc_succeed_cnt := malloc_succeed_cnt s + 1,
                 lowest_free_cnt := (if int (length (free_list s)) < lowest_free_cnt s
                   then int (length (free_list s)) else lowest_free_cnt s)\<rparr>;
          idx = GetIndex p s1
      in if idx < 0 then fatal ''get idx error''
         else if nat idx \<ge> length (bitmap s1) then undefined_behaviour ''bitmap_ out of range''
         else if bitmap s1 ! nat idx \<noteq> 0 then fatal ''double malloc''
         else Inr (True, s1\<lparr>bitmap := (bitmap s1)[nat idx := 1],
                account_malloc_cnt := bump (nat idx) (account_malloc_cnt s1)\<rparr>))"

definition FreeCheckAndSet :: "u64 \<Rightarrow> ObjPool \<Rightarrow> (bool \<times> ObjPool) outcome" where
  "FreeCheckAndSet p s =
     (let s1 = s\<lparr>free_cnt := free_cnt s + 1\<rparr>;
          idx = GetIndex p s1
      in if idx < 0 then fatal ''get idx error''
         else if nat idx \<ge> length (bitmap s1) then undefined_behaviour ''bitmap_ out of range''
         else if bitmap s1 ! nat idx = 0 then fatal ''double free''
         else Inr (True, s1\<lparr>bitmap := (bitmap s1)[nat idx := 0],
                account_free_cnt := bump (nat idx) (account_free_cnt s1)\<rparr>))"

text \<open>\<^verbatim>\<open>assert(f())\<close>: evaluated in a debug build only.\<close>

definition assert_call :: "bool \<Rightarrow> ('s \<Rightarrow> (bool \<times> 's) outcome) \<Rightarrow> 's \<Rightarrow> 's outcome" where
  "assert_call dbg f s =
     (if dbg then obind (f s) (\<lambda>(ok, s'). if ok then Inr s' else fatal ''assertion failed'') else Inr s)"

definition Malloc :: "bool \<Rightarrow> ObjPool \<Rightarrow> (u64 option \<times> ObjPool) outcome" where
  "Malloc dbg s =
     (if free_list s = [] then Inr (None, s\<lparr>malloc_failed_cnt := malloc_failed_cnt s + 1\<rparr>)
      else
        let ele = last (free_list s);
            s1 = s\<lparr>free_list := butlast (free_list s)\<rparr>
        in obind (assert_call dbg (MallocCheckAndSet ele) s1) (\<lambda>s2. Inr (Some ele, s2)))"

definition Free :: "bool \<Rightarrow> u64 \<Rightarrow> ObjPool \<Rightarrow> ObjPool outcome" where
  "Free dbg p s =
     obind (assert_call dbg (FreeCheckAndSet p) s) (\<lambda>s1.
       if mem_ptr s1 = None \<or> length (free_list s1) \<ge> nat (obj_cnt s1)
       then undefined_behaviour ''free_list_ out of range''
       else Inr (s1\<lparr>free_list := free_list s1 @ [p]\<rparr>))"

lemmas pool_defs = MallocCheckAndSet_def FreeCheckAndSet_def assert_call_def Malloc_def Free_def Let_def

section \<open>Slots\<close>

definition slot :: "ObjPool \<Rightarrow> nat \<Rightarrow> u64" where
  "slot s i = the (mem_ptr s) + of_nat i * obj_size s"

text \<open>The pool has memory, its objects have a size, and its extent fits the address space.\<close>

definition pool_sized :: "ObjPool \<Rightarrow> bool" where
  "pool_sized s \<longleftrightarrow> mem_ptr s \<noteq> None \<and> 0 \<le> obj_cnt s \<and> obj_cnt s < 2 ^ 31 \<and> obj_size s \<noteq> 0
     \<and> unat (obj_size s) * nat (obj_cnt s) < 2 ^ 64 \<and> length (bitmap s) = nat (obj_cnt s)"

lemma unat_of_nat_mult:
  assumes "i * unat (z :: u64) < 2 ^ 64" and "z \<noteq> 0"
  shows "unat (of_nat i * z) = i * unat z"
proof -
  have "0 < unat z"
    using assms(2) by (simp add: unat_gt_0)
  then have "i \<le> i * unat z"
    by simp
  then have "i < 2 ^ 64"
    using assms(1) by linarith
  then have "unat (of_nat i :: u64) = i"
    by (simp add: unat_of_nat take_bit_nat_eq_self)
  with assms(1) show ?thesis
    using unat_mult_lem [of "of_nat i :: u64" z] by simp
qed

lemma pool_extent:
  assumes "pool_sized s"
  shows "unat (obj_size s * of_int (obj_cnt s)) = nat (obj_cnt s) * unat (obj_size s)"
proof -
  have sz: "nat (obj_cnt s) * unat (obj_size s) < 2 ^ 64" "obj_size s \<noteq> 0" "0 \<le> obj_cnt s"
    using assms unfolding pool_sized_def by (simp_all add: mult.commute)
  have "obj_size s * of_int (obj_cnt s) = of_nat (nat (obj_cnt s)) * obj_size s"
    using sz(3) by (simp add: mult.commute)
  then show ?thesis
    using unat_of_nat_mult [OF sz(1,2)] by simp
qed

lemma slot_offset:
  assumes "pool_sized s" and "i < nat (obj_cnt s)"
  shows "unat (of_nat i * obj_size s) = i * unat (obj_size s)"
proof (rule unat_of_nat_mult)
  have "i * unat (obj_size s) \<le> nat (obj_cnt s) * unat (obj_size s)"
    using assms(2) by simp
  also have "\<dots> < 2 ^ 64"
    using assms(1) by (simp add: pool_sized_def mult.commute)
  finally show "i * unat (obj_size s) < 2 ^ 64" .
  show "obj_size s \<noteq> 0"
    using assms(1) by (simp add: pool_sized_def)
qed

lemma sint_ucast_nat:
  assumes "unat (x :: u64) < 2 ^ 31"
  shows "sint (ucast x :: 32 word) = int (unat x)"
proof -
  let ?w = "ucast x :: 32 word"
  have u: "unat ?w = unat x"
    using assms by (simp add: unsigned_ucast_eq take_bit_nat_eq_self)
  have "int (unat ?w) < 2 ^ 31"
    unfolding u using assms by (metis of_nat_less_iff of_nat_numeral of_nat_power)
  then have w: "uint ?w < 2 ^ 31"
    by simp
  have "sint ?w = uint ?w"
    unfolding sint_uint by (rule signed_take_bit_int_eq_self) (use w in \<open>auto intro: order_trans [of _ 0]\<close>)
  also have "\<dots> = int (unat ?w)"
    by simp
  finally show ?thesis
    unfolding u .
qed

lemma GetIndex_slot:
  assumes "pool_sized s" and "i < nat (obj_cnt s)"
  shows "GetIndex (slot s i) s = int i"
proof -
  let ?o = "of_nat i * obj_size s"
  obtain b where b: "mem_ptr s = Some b"
    using assms(1) by (auto simp: pool_sized_def)
  have pos: "0 < unat (obj_size s)"
    using assms(1) by (simp add: pool_sized_def unat_gt_0)
  have i: "i < 2 ^ 31"
    using assms by (auto simp: pool_sized_def zless_nat_eq_int_zless)
  have o: "unat ?o = i * unat (obj_size s)"
    by (rule slot_offset [OF assms])
  have lt: "?o < obj_size s * of_int (obj_cnt s)"
    unfolding word_less_nat_alt pool_extent [OF assms(1)] o using pos assms(2) by simp
  have m: "unat (?o mod obj_size s) = 0" and d: "unat (?o div obj_size s) = i"
    unfolding unat_mod_distrib unat_div_distrib o using pos by simp_all
  have "sint (ucast (?o div obj_size s) :: 32 word) = int i"
    using i d by (simp add: sint_ucast_nat)
  moreover have "?o mod obj_size s = 0"
    using m by (metis unat_eq_zero)
  ultimately show ?thesis
    unfolding GetIndex_def slot_def b using lt by (simp add: Let_def not_le)
qed

lemma slot_inj:
  assumes "pool_sized s" and "i < nat (obj_cnt s)" and "j < nat (obj_cnt s)" and "slot s i = slot s j"
  shows "i = j"
  using GetIndex_slot [OF assms(1,2)] GetIndex_slot [OF assms(1,3)] assms(4) by (metis of_nat_eq_iff)

lemma GetIndex_inverse:
  assumes "pool_sized s" and "0 \<le> GetIndex p s"
  shows "nat (GetIndex p s) < nat (obj_cnt s) \<and> p = slot s (nat (GetIndex p s))"
proof -
  obtain b where b: "mem_ptr s = Some b"
    using assms(1) by (auto simp: pool_sized_def)
  let ?o = "p - b"
  let ?k = "unat ?o div unat (obj_size s)"
  have pos: "0 < unat (obj_size s)"
    using assms(1) by (simp add: pool_sized_def unat_gt_0)
  have idx: "\<not> obj_size s * of_int (obj_cnt s) \<le> ?o" "?o mod obj_size s = 0"
    "GetIndex p s = sint (ucast (?o div obj_size s) :: 32 word)"
    using assms(2) by (auto simp: GetIndex_def b Let_def split: if_splits)
  have "unat ?o < nat (obj_cnt s) * unat (obj_size s)"
    using idx(1) unfolding not_le word_less_nat_alt pool_extent [OF assms(1)] .
  then have k: "?k < nat (obj_cnt s)"
    using pos by (simp add: less_mult_imp_div_less)
  have m: "unat ?o = ?k * unat (obj_size s)"
    using idx(2) by (metis div_mult_mod_eq add.right_neutral unat_0 unat_mod_distrib)
  have "unat (?o div obj_size s) = ?k"
    by (simp add: unat_div_distrib)
  moreover have "?k < 2 ^ 31"
    using k assms(1) by (auto simp: pool_sized_def zless_nat_eq_int_zless)
  ultimately have g: "nat (GetIndex p s) = ?k"
    unfolding idx(3) by (subst sint_ucast_nat) simp_all
  have "?o = of_nat ?k * obj_size s"
    using m slot_offset [OF assms(1) k] by (simp add: word_unat_eq_iff)
  then show ?thesis
    using k unfolding g by (simp add: slot_def b algebra_simps)
qed

section \<open>The pool invariant\<close>

text \<open>The free list holds exactly the slots whose bit is clear, each once.\<close>

definition pool_ok :: "ObjPool \<Rightarrow> bool" where
  "pool_ok s \<longleftrightarrow> pool_sized s \<and> distinct (free_list s)
     \<and> set (free_list s) = slot s ` {i. i < nat (obj_cnt s) \<and> bitmap s ! i = 0}"

definition in_use :: "ObjPool \<Rightarrow> u64 set" where
  "in_use s = slot s ` {i. i < nat (obj_cnt s) \<and> bitmap s ! i \<noteq> 0}"

lemma slot_image_remove:
  assumes "pool_sized s" and "i < nat (obj_cnt s)" and "A \<subseteq> {i. i < nat (obj_cnt s)}"
  shows "slot s ` (A - {i}) = slot s ` A - {slot s i}"
proof -
  have "inj_on (slot s) {i. i < nat (obj_cnt s)}"
    using slot_inj [OF assms(1)] by (auto intro: inj_onI)
  then show ?thesis
    using assms(2,3) by (subst inj_on_image_set_diff [of _ "{i. i < nat (obj_cnt s)}"]) auto
qed

lemma pool_moved:
  assumes "pool_sized s" and "mem_ptr s' = mem_ptr s" and "obj_size s' = obj_size s" and "obj_cnt s' = obj_cnt s"
    and "length (bitmap s') = length (bitmap s)"
  shows "pool_sized s'" and "slot s' = slot s"
  using assms by (simp_all add: pool_sized_def slot_def fun_eq_iff)

lemma GetIndex_update [simp]:
  "GetIndex p (s\<lparr>free_cnt := x\<rparr>) = GetIndex p s" "GetIndex p (s\<lparr>malloc_succeed_cnt := x\<rparr>) = GetIndex p s"
  "GetIndex p (s\<lparr>lowest_free_cnt := y\<rparr>) = GetIndex p s" "GetIndex p (s\<lparr>free_list := z\<rparr>) = GetIndex p s"
  by (simp_all add: GetIndex_def Let_def cong: if_cong)

text \<open>One slot changes sides.\<close>

lemma pool_take:
  assumes "pool_ok s" and "i < nat (obj_cnt s)" and "bitmap s ! i = 0"
    and "free_list s = fl @ [slot s i]"
    and "mem_ptr s' = mem_ptr s" and "obj_size s' = obj_size s" and "obj_cnt s' = obj_cnt s"
    and "bitmap s' = (bitmap s)[i := 1]" and "free_list s' = fl"
  shows "pool_ok s' \<and> in_use s' = insert (slot s i) (in_use s) \<and> slot s i \<notin> in_use s"
proof -
  have sz: "pool_sized s" and len: "length (bitmap s) = nat (obj_cnt s)"
    using assms(1) by (simp_all add: pool_ok_def pool_sized_def)
  have s': "pool_sized s'" "slot s' = slot s"
    using pool_moved [OF sz assms(5-7)] assms(8) by simp_all
  let ?Z = "{j. j < nat (obj_cnt s) \<and> bitmap s ! j = 0}" and ?U = "{j. j < nat (obj_cnt s) \<and> bitmap s ! j \<noteq> 0}"
  have "{j. j < nat (obj_cnt s') \<and> bitmap s' ! j = 0} = ?Z - {i}"
    and U: "{j. j < nat (obj_cnt s') \<and> bitmap s' ! j \<noteq> 0} = insert i ?U"
    using assms(2,7,8) len by (auto simp: nth_list_update)
  then have "slot s' ` {j. j < nat (obj_cnt s') \<and> bitmap s' ! j = 0} = set (free_list s) - {slot s i}"
    using slot_image_remove [OF sz assms(2), of ?Z] assms(1) s'(2) by (auto simp: pool_ok_def)
  then have "pool_ok s'"
    using assms(1,4,9) s'(1) by (auto simp: pool_ok_def)
  moreover have "in_use s' = insert (slot s i) (in_use s)"
    unfolding in_use_def U s'(2) by simp
  moreover have "slot s i \<notin> in_use s"
    using slot_inj [OF sz assms(2)] assms(3) by (auto simp: in_use_def)
  ultimately show ?thesis
    by blast
qed

lemma pool_give:
  assumes "pool_ok s" and "i < nat (obj_cnt s)" and "bitmap s ! i \<noteq> 0"
    and "mem_ptr s' = mem_ptr s" and "obj_size s' = obj_size s" and "obj_cnt s' = obj_cnt s"
    and "bitmap s' = (bitmap s)[i := 0]" and "free_list s' = free_list s @ [slot s i]"
  shows "pool_ok s' \<and> in_use s' = in_use s - {slot s i} \<and> slot s i \<in> in_use s"
proof -
  have sz: "pool_sized s" and len: "length (bitmap s) = nat (obj_cnt s)"
    using assms(1) by (simp_all add: pool_ok_def pool_sized_def)
  have s': "pool_sized s'" "slot s' = slot s"
    using pool_moved [OF sz assms(4-6)] assms(7) by simp_all
  let ?Z = "{j. j < nat (obj_cnt s) \<and> bitmap s ! j = 0}" and ?U = "{j. j < nat (obj_cnt s) \<and> bitmap s ! j \<noteq> 0}"
  have Z: "{j. j < nat (obj_cnt s') \<and> bitmap s' ! j = 0} = insert i ?Z"
    and U: "{j. j < nat (obj_cnt s') \<and> bitmap s' ! j \<noteq> 0} = ?U - {i}"
    using assms(2,6,7) len by (auto simp: nth_list_update)
  have "slot s i \<notin> set (free_list s)"
    using assms(1,3) slot_inj [OF sz assms(2)] by (auto simp: pool_ok_def)
  then have "pool_ok s'"
    using assms(1,8) s' unfolding pool_ok_def Z by auto
  moreover have "in_use s' = in_use s - {slot s i}"
    unfolding in_use_def U s'(2) by (rule slot_image_remove [OF sz assms(2)]) auto
  ultimately show ?thesis
    using assms(2,3) by (auto simp: in_use_def)
qed

lemma Malloc_debug:
  assumes "pool_ok s" and "free_list s = fl @ [p]"
  obtains s' where "Malloc True s = Inr (Some p, s')" and "pool_ok s'"
    and "in_use s' = insert p (in_use s)" and "p \<notin> in_use s" and "free_list s' = fl" and "obj_cnt s' = obj_cnt s"
proof -
  have sz: "pool_sized s" and len: "length (bitmap s) = nat (obj_cnt s)"
    using assms(1) by (simp_all add: pool_ok_def pool_sized_def)
  obtain i where i: "i < nat (obj_cnt s)" "bitmap s ! i = 0" "p = slot s i"
    using assms by (auto simp: pool_ok_def)
  have "GetIndex p s = int i"
    using GetIndex_slot [OF sz i(1)] i(3) by simp
  then obtain s' where m: "Malloc True s = Inr (Some p, s')"
    and s': "mem_ptr s' = mem_ptr s" "obj_size s' = obj_size s" "obj_cnt s' = obj_cnt s"
      "bitmap s' = (bitmap s)[i := 1]" "free_list s' = fl"
    using i(1,2) len assms(2) by (simp add: pool_defs)
  from pool_take [OF assms(1) i(1,2) _ s'] assms(2) i(3) that [OF m] s'(3,5) show thesis
    by simp
qed

lemma Free_debug:
  assumes "pool_ok s" and "Free True p s = Inr s'"
  shows "pool_ok s' \<and> p \<in> in_use s \<and> in_use s' = in_use s - {p} \<and> length (free_list s') = Suc (length (free_list s))
    \<and> obj_cnt s' = obj_cnt s"
proof -
  have sz: "pool_sized s"
    using assms(1) by (simp add: pool_ok_def)
  have "\<not> GetIndex p s < 0"
    using assms(2) by (auto simp: pool_defs split: if_splits)
  then have i: "nat (GetIndex p s) < nat (obj_cnt s)" "p = slot s (nat (GetIndex p s))"
    using GetIndex_inverse [OF sz, of p] by simp_all
  have s': "bitmap s ! nat (GetIndex p s) \<noteq> 0" "mem_ptr s' = mem_ptr s" "obj_size s' = obj_size s"
    "obj_cnt s' = obj_cnt s" "bitmap s' = (bitmap s)[nat (GetIndex p s) := 0]" "free_list s' = free_list s @ [p]"
    using assms(2) by (auto simp: pool_defs split: if_splits)
  from pool_give [OF assms(1) i(1) s'(1-5)] s' i(2) show ?thesis
    by simp
qed

interpretation debug_pool: allocator "Malloc True" "Free True" pool_ok in_use
    "\<lambda>s. length (free_list s)" "\<lambda>s. nat (obj_cnt s)"
proof
  fix s s' :: ObjPool and p :: u64
  assume ok: "pool_ok s"
  show "p \<notin> in_use s \<and> in_use s' = insert p (in_use s) \<and> Suc (length (free_list s')) = length (free_list s)
      \<and> nat (obj_cnt s') = nat (obj_cnt s) \<and> pool_ok s'" if m: "Malloc True s = Inr (Some p, s')"
  proof (cases "free_list s" rule: rev_cases)
    case (snoc fl q)
    from Malloc_debug [OF ok snoc] m show ?thesis
      by (metis Inr_inject length_append_singleton option.inject prod.inject snoc)
  qed (use m in \<open>simp add: Malloc_def\<close>)
  show "length (free_list s) = 0 \<and> length (free_list s') = 0 \<and> in_use s' = in_use s
      \<and> nat (obj_cnt s') = nat (obj_cnt s) \<and> pool_ok s'" if m: "Malloc True s = Inr (None, s')"
  proof -
    have "free_list s = []" "s' = s\<lparr>malloc_failed_cnt := malloc_failed_cnt s + 1\<rparr>"
      using m by (auto simp: Malloc_def Let_def split: if_splits)
    then show ?thesis
      using ok by (simp add: pool_ok_def pool_sized_def in_use_def slot_def)
  qed
  show "p \<in> in_use s \<and> in_use s' = in_use s - {p} \<and> length (free_list s') = Suc (length (free_list s))
      \<and> nat (obj_cnt s') = nat (obj_cnt s) \<and> pool_ok s'" if "Free True p s = Inr s'"
    using Free_debug [OF ok that] by simp
  show "finite (in_use s)"
    by (simp add: in_use_def)
qed

text \<open>A program that takes objects (\<open>None\<close>) and returns them, with the list of those it holds.\<close>

definition pool_client :: "bool \<Rightarrow> u64 option \<Rightarrow> ObjPool \<times> u64 list \<Rightarrow> (ObjPool \<times> u64 list) outcome" where
  "pool_client dbg c st = (case c of
     None \<Rightarrow> obind (Malloc dbg (fst st)) (\<lambda>(p, s'). Inr (s', case p of None \<Rightarrow> snd st | Some q \<Rightarrow> q # snd st))
   | Some p \<Rightarrow> obind (Free dbg p (fst st)) (\<lambda>s'. Inr (s', removeAll p (snd st))))"

lemma pool_client_debug: "pool_client True = debug_pool.step"
  by (simp add: fun_eq_iff pool_client_def debug_pool.step_def)

lemma new_ObjPool_ok:
  assumes "new_ObjPool memalign cnt sz al = Inr s" and "mem_ptr s \<noteq> None" and "sz \<noteq> 0" and "cnt < 2 ^ 31"
    and "unat sz * nat cnt < 2 ^ 64"
  shows "pool_ok s \<and> in_use s = {} \<and> length (free_list s) = nat (obj_cnt s) \<and> obj_cnt s = cnt"
proof -
  obtain b where s: "0 \<le> cnt" "mem_ptr s = Some b" "obj_cnt s = cnt" "obj_size s = sz" "bitmap s = replicate (nat cnt) 0"
    "free_list s = map (slot s) [0..<nat cnt]"
    using assms(1,2) by (auto simp: new_ObjPool_def Let_def slot_def split: if_splits option.splits)
  have sz: "pool_sized s"
    using assms(3-5) s by (simp add: pool_sized_def)
  have "distinct (map (slot s) [0..<nat cnt])"
    using slot_inj [OF sz] s(3) by (auto simp: distinct_map inj_on_def)
  then show ?thesis
    using sz s by (auto simp: pool_ok_def in_use_def)
qed

section \<open>Properties\<close>

text \<open>
  C40: In a debug build the object pool hands out no object twice. Let a program take objects from a
  new pool and return them in any order. As long as no check fires, the objects it holds are pairwise
  different, all of them are marked in use, and the objects in use and those left add up to the
  size of the pool.
\<close>

theorem ObjPool_never_shares:
  assumes "new_ObjPool memalign cnt sz al = Inr s0" and "mem_ptr s0 \<noteq> None" and "sz \<noteq> 0" and "cnt < 2 ^ 31"
    and "unat sz * nat cnt < 2 ^ 64"
    and "ofold (pool_client True) cs (s0, []) = Inr (s, ps)"
  shows "distinct ps \<and> set ps \<subseteq> in_use s \<and> int (card (in_use s)) + left_cnt s = cnt"
proof -
  note new = new_ObjPool_ok [OF assms(1-5)]
  have "0 \<le> cnt"
    using assms(1) by (auto simp: new_ObjPool_def split: if_splits)
  with debug_pool.run_balance [OF assms(6) [unfolded pool_client_debug]] new show ?thesis
    by (auto simp: left_cnt_def)
qed

theorem ObjPool_never_shares_witness:
  "\<exists>s. ofold (pool_client True) [None, None]
     (\<lparr>free_list = [4096, 4112], mem_ptr = Some 4096, obj_cnt = 2, real_size = 32, malloc_succeed_cnt = 0,
       malloc_failed_cnt = 0, free_cnt = 0, lowest_free_cnt = 2 ^ 31 - 1, bitmap = [0, 0],
       account_malloc_cnt = [0, 0], account_free_cnt = [0, 0], obj_size = 16\<rparr>, []) = Inr (s, [4096, 4112])
     \<and> distinct [4096, 4112 :: u64] \<and> int (card (in_use s)) + left_cnt s = 2"
proof -
  let ?p = "\<lparr>free_list = [4096, 4112], mem_ptr = Some 4096, obj_cnt = 2, real_size = 32, malloc_succeed_cnt = 0,
       malloc_failed_cnt = 0, free_cnt = 0, lowest_free_cnt = 2 ^ 31 - 1, bitmap = [0, 0],
       account_malloc_cnt = [0, 0], account_free_cnt = [0, 0], obj_size = 16\<rparr>"
  have new: "new_ObjPool (\<lambda>_ _. Some 4096) 2 16 8 = Inr ?p"
    by (simp add: new_ObjPool_def upt_rec) (simp add: numeral_2_eq_2)
  obtain s where run: "ofold (pool_client True) [None, None] (?p, []) = Inr (s, [4096, 4112])"
    by (simp add: pool_client_def pool_defs GetIndex_def bump_def)
  from ObjPool_never_shares [OF new _ _ _ _ run] run show ?thesis
    by simp
qed

text \<open>
  In a debug build returning an object that is not in use stops the process: a double free, a
  pointer outside the pool and a pointer into the middle of an object are all caught.
\<close>

theorem ObjPool_catches_bad_free:
  assumes "pool_ok s" and "p \<notin> in_use s"
  shows "\<exists>w. Free True p s = Inl (Fatal w)"
proof (cases "GetIndex p s < 0")
  case False
  have sz: "pool_sized s"
    using assms(1) by (simp add: pool_ok_def)
  have i: "nat (GetIndex p s) < nat (obj_cnt s)" "p = slot s (nat (GetIndex p s))"
    using GetIndex_inverse [OF sz, of p] False by simp_all
  then have "bitmap s ! nat (GetIndex p s) = 0"
    using assms(2) by (auto simp: in_use_def)
  moreover have "\<not> length (bitmap s) \<le> nat (GetIndex p s)"
    using i(1) sz unfolding pool_sized_def by linarith
  ultimately show ?thesis
    using False by (simp add: pool_defs)
qed (simp add: pool_defs)

theorem ObjPool_catches_bad_free_witness:
  "\<exists>w. Free True 4100 \<lparr>free_list = [4096], mem_ptr = Some 4096, obj_cnt = 1, real_size = 16, malloc_succeed_cnt = 0,
       malloc_failed_cnt = 0, free_cnt = 0, lowest_free_cnt = 0, bitmap = [0],
       account_malloc_cnt = [0], account_free_cnt = [0], obj_size = 16\<rparr> = Inl (Fatal w)"
  by (rule ObjPool_catches_bad_free) (auto simp: pool_ok_def pool_sized_def slot_def in_use_def)

text \<open>
  In a build with \<^verbatim>\<open>NDEBUG\<close> the same pool accepts a double free and then hands the
  object out twice. The checks stand inside \<^verbatim>\<open>assert\<close>, so such a build, which the project
  configures for its release variants, loses them and all counts of successful allocations.
\<close>

theorem ObjPool_ndebug_aliases:
  assumes "mem_ptr s \<noteq> None" and "length (free_list s) + 2 \<le> nat (obj_cnt s)"
  shows "\<exists>s1 s2 s3 s4. Free False p s = Inr s1 \<and> Free False p s1 = Inr s2
    \<and> Malloc False s2 = Inr (Some p, s3) \<and> Malloc False s3 = Inr (Some p, s4)
    \<and> malloc_succeed_cnt s4 = malloc_succeed_cnt s \<and> free_cnt s4 = free_cnt s"
  using assms by (auto simp: pool_defs butlast_append)

theorem ObjPool_ndebug_aliases_witness:
  "\<exists>s1 s2 s3 s4. Free False 4096 \<lparr>free_list = [], mem_ptr = Some 4096, obj_cnt = 2, real_size = 32,
       malloc_succeed_cnt = 0, malloc_failed_cnt = 0, free_cnt = 0, lowest_free_cnt = 0, bitmap = [0, 0],
       account_malloc_cnt = [0, 0], account_free_cnt = [0, 0], obj_size = 16\<rparr> = Inr s1 \<and> Free False 4096 s1 = Inr s2
     \<and> Malloc False s2 = Inr (Some 4096, s3) \<and> Malloc False s3 = Inr (Some 4096, s4)"
  using ObjPool_ndebug_aliases [of "\<lparr>free_list = [], mem_ptr = Some 4096, obj_cnt = 2, real_size = 32,
       malloc_succeed_cnt = 0, malloc_failed_cnt = 0, free_cnt = 0, lowest_free_cnt = 0, bitmap = [0, 0],
       account_malloc_cnt = [0, 0], account_free_cnt = [0, 0], obj_size = 16\<rparr>" 4096]
  by auto

end
