(* ===== verification/Fixed_Function.thy ===== *)
theory Fixed_Function
  imports Jkv_Prelude
begin

text \<open>
  \<^verbatim>\<open>fixed_size_function\<close> (jrpc/base/fixed\_size\_function.h), the type of the completion
  callbacks of the RPC library: a callable wrapper that stores its functor in place. Wrappers are
  objects at addresses, because assignment may alias its operands. A vtable is the set of its
  non-null entries; a functor is a value, and \<open>made\<close> and \<open>gone\<close> count the functor
  objects constructed and destroyed. Destroying or copying storage that holds no functor is
  undefined behaviour. The size check of \<^verbatim>\<open>create\<close> is a static assertion, and a call of
  \<^verbatim>\<open>copy\<close> where the vtable type has no copy entry does not compile: both are left out.
\<close>

section \<open>State\<close>

datatype construct_type = CT_none | CT_copy | CT_move | CT_copy_and_move

definition is_copyable :: "construct_type \<Rightarrow> bool" where
  "is_copyable c \<longleftrightarrow> c = CT_copy \<or> c = CT_copy_and_move"

definition is_movable :: "construct_type \<Rightarrow> bool" where
  "is_movable c \<longleftrightarrow> c = CT_move \<or> c = CT_copy_and_move"

record fsf_vtable =
  vt_call :: bool
  vt_destroy :: bool
  vt_copy :: bool
  vt_move :: bool

definition empty_vtable :: fsf_vtable where
  "empty_vtable = \<lparr>vt_call = False, vt_destroy = False, vt_copy = False, vt_move = False\<rparr>"

record 'f fsf =
  vtable :: fsf_vtable
  storage :: "'f option"

record 'f fsf_mem =
  obj :: "nat \<Rightarrow> 'f fsf"
  made :: nat
  gone :: nat

section \<open>Operations\<close>

definition fsf_default :: "nat \<Rightarrow> 'f fsf_mem \<Rightarrow> 'f fsf_mem" where
  "fsf_default a m = m\<lparr>obj := (obj m)(a := \<lparr>vtable = empty_vtable, storage = None\<rparr>)\<rparr>"

definition fsf_reset :: "nat \<Rightarrow> 'f fsf_mem \<Rightarrow> 'f fsf_mem outcome" where
  "fsf_reset a m =
     (if vt_destroy (vtable (obj m a))
      then case storage (obj m a) of
             None \<Rightarrow> undefined_behaviour ''no functor to destroy''
           | Some f \<Rightarrow> Inr (m\<lparr>obj := (obj m)(a := \<lparr>vtable = empty_vtable, storage = None\<rparr>), gone := gone m + 1\<rparr>)
      else Inr m)"

definition fsf_create :: "construct_type \<Rightarrow> nat \<Rightarrow> 'f \<Rightarrow> 'f fsf_mem \<Rightarrow> 'f fsf_mem" where
  "fsf_create c a f m = m\<lparr>obj := (obj m)(a := \<lparr>vtable = \<lparr>vt_call = True, vt_destroy = True,
       vt_copy = is_copyable c, vt_move = is_movable c\<rparr>, storage = Some f\<rparr>), made := made m + 1\<rparr>"

definition fsf_copy :: "nat \<Rightarrow> nat \<Rightarrow> 'f fsf_mem \<Rightarrow> 'f fsf_mem outcome" where
  "fsf_copy dst src m =
     (if vt_copy (vtable (obj m src))
      then case storage (obj m src) of
             None \<Rightarrow> undefined_behaviour ''no functor to copy''
           | Some f \<Rightarrow> Inr (m\<lparr>obj := (obj m)(dst := \<lparr>vtable = vtable (obj m src), storage = Some f\<rparr>), made := made m + 1\<rparr>)
      else Inr m)"

definition fsf_move :: "construct_type \<Rightarrow> nat \<Rightarrow> nat \<Rightarrow> 'f fsf_mem \<Rightarrow> 'f fsf_mem outcome" where
  "fsf_move c dst src m =
     (if \<not> is_movable c then fsf_copy dst src m
      else if vt_move (vtable (obj m src))
      then case storage (obj m src) of
             None \<Rightarrow> undefined_behaviour ''no functor to move''
           | Some f \<Rightarrow>
               fsf_reset src (m\<lparr>obj := (obj m)(dst := \<lparr>vtable = vtable (obj m src), storage = Some f\<rparr>), made := made m + 1\<rparr>)
      else Inr m)"

definition fsf_assign_copy :: "nat \<Rightarrow> nat \<Rightarrow> 'f fsf_mem \<Rightarrow> 'f fsf_mem outcome" where
  "fsf_assign_copy dst src m = obind (fsf_reset dst m) (fsf_copy dst src)"

definition fsf_assign_move :: "construct_type \<Rightarrow> nat \<Rightarrow> nat \<Rightarrow> 'f fsf_mem \<Rightarrow> 'f fsf_mem outcome" where
  "fsf_assign_move c dst src m = obind (fsf_reset dst m) (fsf_move c dst src)"

definition fsf_assign :: "construct_type \<Rightarrow> nat \<Rightarrow> 'f \<Rightarrow> 'f fsf_mem \<Rightarrow> 'f fsf_mem outcome" where
  "fsf_assign c dst f m = obind (fsf_reset dst m) (\<lambda>m1. Inr (fsf_create c dst f m1))"

text \<open>\<^verbatim>\<open>operator bool\<close>, and the call operator of functors that \<open>invoke\<close> runs.\<close>

definition fsf_bool :: "nat \<Rightarrow> 'f fsf_mem \<Rightarrow> bool" where
  "fsf_bool a m = vt_call (vtable (obj m a))"

definition fsf_call :: "('f \<Rightarrow> 'a \<Rightarrow> 'r \<times> 'f) \<Rightarrow> nat \<Rightarrow> 'a \<Rightarrow> 'f fsf_mem \<Rightarrow> ('r \<times> 'f fsf_mem) outcome" where
  "fsf_call invoke a x m =
     (if vt_call (vtable (obj m a))
      then case storage (obj m a) of
             None \<Rightarrow> undefined_behaviour ''no functor to call''
           | Some f \<Rightarrow> (let (r, f') = invoke f x in Inr (r, m\<lparr>obj := (obj m)(a := (obj m a)\<lparr>storage := Some f'\<rparr>)\<rparr>))
      else fatal ''std::bad_function_call'')"

text \<open>\<^verbatim>\<open>swap\<close>; \<open>tmp\<close> is the address of its local variable.\<close>

definition fsf_swap :: "construct_type \<Rightarrow> nat \<Rightarrow> nat \<Rightarrow> nat \<Rightarrow> 'f fsf_mem \<Rightarrow> 'f fsf_mem outcome" where
  "fsf_swap c tmp this other m =
     obind (fsf_move c tmp other (fsf_default tmp m)) (\<lambda>m1.
     obind (fsf_assign_move c other this m1) (\<lambda>m2.
     obind (fsf_assign_move c this tmp m2) (fsf_reset tmp)))"

section \<open>Well-formed wrappers and the functor balance\<close>

text \<open>A wrapper holds a functor exactly when its vtable is set, and then as its type prescribes.\<close>

definition fsf_ok :: "construct_type \<Rightarrow> 'f fsf \<Rightarrow> bool" where
  "fsf_ok c o1 \<longleftrightarrow> (case storage o1 of None \<Rightarrow> vtable o1 = empty_vtable
     | Some f \<Rightarrow> vtable o1 = \<lparr>vt_call = True, vt_destroy = True, vt_copy = is_copyable c, vt_move = is_movable c\<rparr>)"

definition holders :: "'f fsf_mem \<Rightarrow> nat set" where
  "holders m = {a. storage (obj m a) \<noteq> None}"

definition fsf_inv :: "construct_type \<Rightarrow> 'f fsf_mem \<Rightarrow> bool" where
  "fsf_inv c m \<longleftrightarrow> (\<forall>a. fsf_ok c (obj m a)) \<and> finite (holders m) \<and> made m = gone m + card (holders m)"

lemmas fsf_defs = fsf_reset_def fsf_copy_def fsf_move_def fsf_create_def fsf_default_def

lemma ok_None: "fsf_ok c o1 \<Longrightarrow> storage o1 = None \<Longrightarrow> vtable o1 = empty_vtable"
  by (simp add: fsf_ok_def)

lemma ok_Some:
  assumes "fsf_inv c m" and "storage (obj m a) = Some f"
  shows "vtable (obj m a) = \<lparr>vt_call = True, vt_destroy = True, vt_copy = is_copyable c, vt_move = is_movable c\<rparr>"
proof -
  have "fsf_ok c (obj m a)"
    using assms(1) by (simp add: fsf_inv_def)
  with assms(2) show ?thesis
    by (simp add: fsf_ok_def)
qed

lemma empty_vtable_simps [simp]:
  "\<not> vt_call empty_vtable" "\<not> vt_destroy empty_vtable" "\<not> vt_copy empty_vtable" "\<not> vt_move empty_vtable"
  by (simp_all add: empty_vtable_def)

text \<open>Every operation never faults on well-formed wrappers; its result in terms of the held functors.\<close>

definition held_at :: "'f fsf_mem \<Rightarrow> nat \<Rightarrow> 'f option" where
  "held_at m a = storage (obj m a)"

lemma reset_effect:
  assumes "fsf_inv c m"
  obtains m' where "fsf_reset a m = Inr m'" and "held_at m' = (held_at m)(a := None)" and "fsf_inv c m'"
proof (cases "storage (obj m a)")
  case None
  then have "fsf_reset a m = Inr m"
    using assms ok_None [of c "obj m a"] by (simp add: fsf_reset_def fsf_inv_def)
  with that [of m] None assms show ?thesis
    by (auto simp: held_at_def fun_eq_iff)
next
  case (Some f)
  let ?m = "m\<lparr>obj := (obj m)(a := \<lparr>vtable = empty_vtable, storage = None\<rparr>), gone := gone m + 1\<rparr>"
  have r: "fsf_reset a m = Inr ?m"
    using ok_Some [OF assms Some] Some by (simp add: fsf_reset_def)
  have "holders ?m = holders m - {a}" "a \<in> holders m"
    using Some by (auto simp: holders_def)
  then have "fsf_inv c ?m"
    using assms card_Suc_Diff1 [of "holders m" a] by (auto simp: fsf_inv_def fsf_ok_def)
  with that [OF r] show ?thesis
    by (auto simp: held_at_def fun_eq_iff)
qed

text \<open>Filling an empty wrapper.\<close>

lemma fill_effect:
  assumes "fsf_inv c m" and "held_at m a = None"
    and "m' = m\<lparr>obj := (obj m)(a := \<lparr>vtable = \<lparr>vt_call = True, vt_destroy = True, vt_copy = is_copyable c,
      vt_move = is_movable c\<rparr>, storage = Some f\<rparr>), made := made m + 1\<rparr>"
  shows "fsf_inv c m' \<and> held_at m' = (held_at m)(a \<mapsto> f)"
proof -
  have "holders m' = insert a (holders m)" "a \<notin> holders m"
    using assms(2,3) by (auto simp: holders_def held_at_def)
  then show ?thesis
    using assms(1,3) by (auto simp: fsf_inv_def fsf_ok_def held_at_def fun_eq_iff)
qed

lemma copy_effect:
  assumes "fsf_inv c m" and "is_copyable c" and "held_at m dst = None"
  obtains m' where "fsf_copy dst src m = Inr m'" and "held_at m' = (held_at m)(dst := held_at m src)" and "fsf_inv c m'"
proof (cases "storage (obj m src)")
  case None
  then have "fsf_copy dst src m = Inr m"
    using assms(1) ok_None [of c "obj m src"] by (simp add: fsf_copy_def fsf_inv_def)
  with that [of m] None assms(1,3) show ?thesis
    by (auto simp: held_at_def fun_eq_iff)
next
  case (Some f)
  note v = ok_Some [OF assms(1) Some]
  show ?thesis
    using that fill_effect [OF assms(1,3) refl, of f] Some assms(2) by (simp add: fsf_copy_def v held_at_def)
qed

lemma move_effect:
  assumes "fsf_inv c m" and "is_movable c" and "held_at m dst = None"
  obtains m' where "fsf_move c dst src m = Inr m'"
    and "held_at m' = (held_at m)(dst := held_at m src, src := None)" and "fsf_inv c m'"
proof (cases "storage (obj m src)")
  case None
  then have "fsf_move c dst src m = Inr m"
    using assms(1,2) ok_None [of c "obj m src"] by (simp add: fsf_move_def fsf_inv_def)
  with that [of m] None assms(1,3) show ?thesis
    by (auto simp: held_at_def fun_eq_iff)
next
  case (Some f)
  note v = ok_Some [OF assms(1) Some]
  let ?m = "m\<lparr>obj := (obj m)(dst := \<lparr>vtable = \<lparr>vt_call = True, vt_destroy = True, vt_copy = is_copyable c,
      vt_move = is_movable c\<rparr>, storage = Some f\<rparr>), made := made m + 1\<rparr>"
  have fill: "fsf_inv c ?m" "held_at ?m = (held_at m)(dst \<mapsto> f)"
    using fill_effect [OF assms(1,3) refl, of f] by blast+
  obtain m' where "fsf_reset src ?m = Inr m'" "held_at m' = (held_at ?m)(src := None)" "fsf_inv c m'"
    by (rule reset_effect [OF fill(1)])
  with that Some assms(2) fill(2) show ?thesis
    by (simp add: fsf_move_def v held_at_def)
qed

section \<open>Refinement of a partial map\<close>

datatype 'f fsf_op = AssignCopy nat nat | AssignMove nat nat | AssignFun nat 'f | AssignNull nat | Swap nat nat nat

fun fsf_exec :: "construct_type \<Rightarrow> 'f fsf_op \<Rightarrow> 'f fsf_mem \<Rightarrow> 'f fsf_mem outcome" where
  "fsf_exec c (AssignCopy dst src) m = fsf_assign_copy dst src m"
| "fsf_exec c (AssignMove dst src) m = fsf_assign_move c dst src m"
| "fsf_exec c (AssignFun dst f) m = fsf_assign c dst f m"
| "fsf_exec c (AssignNull dst) m = fsf_reset dst m"
| "fsf_exec c (Swap tmp x y) m = fsf_swap c tmp x y m"

text \<open>The specification on the functors held at the addresses.\<close>

fun spec_exec :: "'f fsf_op \<Rightarrow> (nat \<rightharpoonup> 'f) \<Rightarrow> (nat \<rightharpoonup> 'f)" where
  "spec_exec (AssignCopy dst src) h = h(dst := if dst = src then None else h src)"
| "spec_exec (AssignMove dst src) h = (if dst = src then h(dst := None) else h(dst := h src, src := None))"
| "spec_exec (AssignFun dst f) h = h(dst \<mapsto> f)"
| "spec_exec (AssignNull dst) h = h(dst := None)"
| "spec_exec (Swap tmp x y) h = h(x := h y, y := h x)"

text \<open>The local variable of \<^verbatim>\<open>swap\<close> is a new object, different from both operands.\<close>

fun op_local :: "'f fsf_op \<Rightarrow> (nat \<rightharpoonup> 'f) \<Rightarrow> bool" where
  "op_local (Swap tmp x y) h \<longleftrightarrow> h tmp = None \<and> tmp \<noteq> x \<and> tmp \<noteq> y"
| "op_local _ h \<longleftrightarrow> True"

lemma assign_move_effect:
  assumes "fsf_inv c m" and "is_movable c"
  obtains m' where "fsf_assign_move c dst src m = Inr m'" and "fsf_inv c m'"
    and "held_at m' = spec_exec (AssignMove dst src) (held_at m)"
proof -
  obtain m1 where m1: "fsf_reset dst m = Inr m1" "held_at m1 = (held_at m)(dst := None)" "fsf_inv c m1"
    by (rule reset_effect [OF assms(1)])
  obtain m2 where m2: "fsf_move c dst src m1 = Inr m2" "held_at m2 = (held_at m1)(dst := held_at m1 src, src := None)"
    "fsf_inv c m2"
    by (rule move_effect [OF m1(3) assms(2), of dst src]) (simp add: m1(2))
  show thesis
    by (rule that [of m2]) (auto simp: fsf_assign_move_def m1 m2 fun_eq_iff)
qed

lemma default_effect:
  assumes "fsf_inv c m" and "held_at m a = None"
  shows "fsf_inv c (fsf_default a m)" and "held_at (fsf_default a m) = held_at m"
proof -
  have "holders (fsf_default a m) = holders m"
    using assms(2) by (auto simp: holders_def held_at_def fsf_default_def)
  then show "fsf_inv c (fsf_default a m)"
    using assms(1) by (simp add: fsf_inv_def) (simp add: fsf_default_def fsf_ok_def)
  show "held_at (fsf_default a m) = held_at m"
    using assms(2) by (auto simp: held_at_def fsf_default_def fun_eq_iff)
qed

lemma swap_effect:
  assumes "fsf_inv c m" and "is_movable c" and "held_at m tmp = None" and "tmp \<noteq> x" and "tmp \<noteq> y"
  obtains m' where "fsf_swap c tmp x y m = Inr m'" and "fsf_inv c m'"
    and "held_at m' = (held_at m)(x := held_at m y, y := held_at m x)"
proof -
  note d = default_effect [OF assms(1,3)]
  obtain m1 where m1: "fsf_move c tmp y (fsf_default tmp m) = Inr m1"
    "held_at m1 = (held_at m)(tmp := held_at m y, y := None)" "fsf_inv c m1"
    by (rule move_effect [OF d(1) assms(2), of tmp y]) (simp_all add: d(2) assms(3))
  obtain m2 where m2: "fsf_assign_move c y x m1 = Inr m2" "fsf_inv c m2"
    "held_at m2 = spec_exec (AssignMove y x) (held_at m1)"
    by (rule assign_move_effect [OF m1(3) assms(2)])
  obtain m3 where m3: "fsf_assign_move c x tmp m2 = Inr m3" "fsf_inv c m3"
    "held_at m3 = spec_exec (AssignMove x tmp) (held_at m2)"
    by (rule assign_move_effect [OF m2(2) assms(2)])
  obtain m4 where m4: "fsf_reset tmp m3 = Inr m4" "held_at m4 = (held_at m3)(tmp := None)" "fsf_inv c m4"
    by (rule reset_effect [OF m3(2)])
  have "held_at m4 = (held_at m)(x := held_at m y, y := held_at m x)"
    using assms(3-5) by (auto simp: m4(2) m3(3) m2(3) m1(2) fun_eq_iff)
  with that [of m4] m1 m2 m3 m4 show thesis
    by (simp add: fsf_swap_def)
qed

lemma exec_effect:
  assumes "fsf_inv CT_copy_and_move m" and "op_local p (held_at m)"
  shows "\<exists>m'. fsf_exec CT_copy_and_move p m = Inr m' \<and> fsf_inv CT_copy_and_move m'
    \<and> held_at m' = spec_exec p (held_at m)"
proof (cases p)
  case (AssignCopy dst src)
  obtain m1 where m1: "fsf_reset dst m = Inr m1" "held_at m1 = (held_at m)(dst := None)" "fsf_inv CT_copy_and_move m1"
    by (rule reset_effect [OF assms(1)])
  obtain m2 where m2: "fsf_copy dst src m1 = Inr m2" "held_at m2 = (held_at m1)(dst := held_at m1 src)"
    "fsf_inv CT_copy_and_move m2"
    by (rule copy_effect [OF m1(3), of dst src]) (simp_all add: m1(2) is_copyable_def)
  show ?thesis
    using m1 m2 by (auto simp: AssignCopy fsf_assign_copy_def)
next
  case (AssignMove dst src)
  show ?thesis
    by (rule assign_move_effect [OF assms(1), of dst src]) (auto simp: AssignMove is_movable_def)
next
  case (AssignFun dst f)
  obtain m1 where m1: "fsf_reset dst m = Inr m1" "held_at m1 = (held_at m)(dst := None)" "fsf_inv CT_copy_and_move m1"
    by (rule reset_effect [OF assms(1)])
  with fill_effect [OF m1(3) _ refl, of dst f] show ?thesis
    by (simp add: AssignFun fsf_assign_def fsf_create_def)
next
  case (AssignNull dst)
  then show ?thesis
    by (auto intro: reset_effect [OF assms(1), of dst])
next
  case (Swap tmp x y)
  with assms(2) show ?thesis
    by (auto intro: swap_effect [OF assms(1), of tmp x y] simp: is_movable_def)
qed

section \<open>Properties\<close>

text \<open>
  Copying, moving, assigning, clearing and swapping callbacks refine a map from wrappers to
  functors. On well-formed wrappers of the default type, each of these operations returns without
  undefined behaviour, leaves the wrappers well formed and changes the functors they hold exactly as
  the map specification says; the functors constructed so far are those destroyed plus those held, so
  none leaks and none is destroyed twice.
\<close>

theorem fixed_size_function_refines:
  assumes "fsf_inv CT_copy_and_move m" and "op_local p (held_at m)"
  shows "\<exists>m'. fsf_exec CT_copy_and_move p m = Inr m' \<and> fsf_inv CT_copy_and_move m'
    \<and> held_at m' = spec_exec p (held_at m) \<and> made m' = gone m' + card (dom (held_at m'))"
proof -
  obtain m' where "fsf_exec CT_copy_and_move p m = Inr m'" "fsf_inv CT_copy_and_move m'"
    "held_at m' = spec_exec p (held_at m)"
    using exec_effect [OF assms] by blast
  moreover have "dom (held_at m') = holders m'"
    by (auto simp: holders_def held_at_def)
  ultimately show ?thesis
    by (auto simp: fsf_inv_def)
qed

definition fsf_start :: "'f fsf_mem" where
  "fsf_start = \<lparr>obj = \<lambda>_. \<lparr>vtable = empty_vtable, storage = None\<rparr>, made = 0, gone = 0\<rparr>"

lemma fsf_start_inv: "fsf_inv c fsf_start" "held_at fsf_start = Map.empty"
  by (simp_all add: fsf_inv_def fsf_ok_def fsf_start_def holders_def held_at_def fun_eq_iff)

theorem fixed_size_function_refines_witness:
  "\<exists>m'. fsf_exec CT_copy_and_move (AssignFun 3 ''f'') fsf_start = Inr m' \<and> held_at m' = [3 \<mapsto> ''f'']
     \<and> made m' = gone m' + 1"
  using fixed_size_function_refines [OF fsf_start_inv(1), of "AssignFun 3 ''f''"]
  by (auto simp: fsf_start_inv)

text \<open>
  Assigning a callback to itself loses it. After \<^verbatim>\<open>f = f\<close>, by copy or by move, the wrapper is
  empty and calling it throws \<^verbatim>\<open>std::bad_function_call\<close>: \<^verbatim>\<open>assign\<close> resets the target
  before it reads the source.
\<close>

theorem self_assignment_empties:
  assumes "fsf_inv CT_copy_and_move m" and "p = AssignCopy a a \<or> p = AssignMove a a"
  shows "\<exists>m'. fsf_exec CT_copy_and_move p m = Inr m' \<and> \<not> fsf_bool a m'
    \<and> fsf_call invoke a x m' = fatal ''std::bad_function_call''"
proof -
  have "op_local p (held_at m)"
    using assms(2) by auto
  from exec_effect [OF assms(1) this] obtain m' where m': "fsf_exec CT_copy_and_move p m = Inr m'"
    "fsf_inv CT_copy_and_move m'" "held_at m' = spec_exec p (held_at m)"
    by blast
  have "held_at m' a = None"
    using assms(2) by (auto simp: m'(3))
  then have "storage (obj m' a) = None"
    by (simp add: held_at_def)
  then have "vtable (obj m' a) = empty_vtable"
    using m'(2) ok_None [of CT_copy_and_move "obj m' a"] by (simp add: fsf_inv_def)
  with m'(1) show ?thesis
    by (simp add: fsf_bool_def fsf_call_def)
qed

theorem self_assignment_empties_witness:
  "\<exists>m m'. fsf_exec CT_copy_and_move (AssignFun 3 ''f'') fsf_start = Inr m \<and> fsf_bool 3 m
     \<and> fsf_exec CT_copy_and_move (AssignCopy 3 3) m = Inr m' \<and> \<not> fsf_bool 3 m'"
proof -
  obtain m where m: "fsf_exec CT_copy_and_move (AssignFun 3 ''f'') fsf_start = Inr m" "fsf_inv CT_copy_and_move m"
    using exec_effect [OF fsf_start_inv(1), of "AssignFun 3 ''f''"] by auto
  then have "fsf_bool 3 m"
    by (auto simp: fsf_assign_def fsf_reset_def fsf_start_def fsf_create_def fsf_bool_def)
  moreover obtain m' where "fsf_exec CT_copy_and_move (AssignCopy 3 3) m = Inr m'" "\<not> fsf_bool 3 m'"
    using self_assignment_empties [OF m(2), of "AssignCopy 3 3" 3 "\<lambda>f (x :: nat). ((), f)" 0] by auto
  ultimately show ?thesis
    using m(1) by (intro exI conjI)
qed

end
