(* ===== verification/Comparators.thy ===== *)
theory Comparators
  imports Jkv_Prelude
begin

text \<open>
  The order that the RPC library's \<^verbatim>\<open>operator<\<close> overloads must be for standard containers to
  work with them: a strict weak order whose equivalence is equality of keys. The library keeps its
  timers in a \<^verbatim>\<open>std::multimap\<close> keyed by \<^verbatim>\<open>TimeCycle\<close>.
\<close>

locale key_order =
  fixes ok :: "'a \<Rightarrow> bool"
    and less :: "'a \<Rightarrow> 'a \<Rightarrow> bool"
    and key :: "'a \<Rightarrow> 'k :: linorder"
  assumes less_key: "ok x \<Longrightarrow> ok y \<Longrightarrow> less x y \<longleftrightarrow> key x < key y"
begin

definition equivalent :: "'a \<Rightarrow> 'a \<Rightarrow> bool" where
  "equivalent x y \<longleftrightarrow> \<not> less x y \<and> \<not> less y x"

lemma less_irrefl: "ok x \<Longrightarrow> \<not> less x x"
  by (simp add: less_key)

lemma less_trans: "ok x \<Longrightarrow> ok y \<Longrightarrow> ok z \<Longrightarrow> less x y \<Longrightarrow> less y z \<Longrightarrow> less x z"
  by (auto simp: less_key)

lemma less_asym: "ok x \<Longrightarrow> ok y \<Longrightarrow> less x y \<Longrightarrow> \<not> less y x"
  by (auto simp: less_key)

lemma equivalent_key: "ok x \<Longrightarrow> ok y \<Longrightarrow> equivalent x y \<longleftrightarrow> key x = key y"
  by (auto simp: equivalent_def less_key)

lemma equivalent_trans:
  "ok x \<Longrightarrow> ok y \<Longrightarrow> ok z \<Longrightarrow> equivalent x y \<Longrightarrow> equivalent y z \<Longrightarrow> equivalent x z"
  by (simp add: equivalent_key)

lemma less_total: "ok x \<Longrightarrow> ok y \<Longrightarrow> less x y \<or> equivalent x y \<or> less y x"
  by (auto simp: equivalent_def)

text \<open>
  Insertion into a \<^verbatim>\<open>std::multimap\<close>: after the elements that do not come later, so that equal
  keys keep the order of insertion.
\<close>

fun multimap_insert :: "'a \<Rightarrow> 'a list \<Rightarrow> 'a list" where
  "multimap_insert x [] = [x]"
| "multimap_insert x (y # ys) = (if less x y then x # y # ys else y # multimap_insert x ys)"

lemma set_multimap_insert: "set (multimap_insert x ys) = insert x (set ys)"
  by (induction ys) auto

lemma multimap_insert_sorted:
  assumes "ok x" and "\<forall>y\<in>set ys. ok y" and "sorted (map key ys)"
  shows "sorted (map key (multimap_insert x ys))"
  using assms
proof (induction ys)
  case (Cons y ys)
  then show ?case
    by (auto simp: less_key set_multimap_insert not_less)
qed simp

lemma multimap_insert_front:
  assumes "ok x" and "\<forall>y\<in>set ys. ok y" and "sorted (map key ys)"
  shows "\<forall>y\<in>set (multimap_insert x ys). key (hd (multimap_insert x ys)) \<le> key y"
  using multimap_insert_sorted [OF assms] by (cases "multimap_insert x ys") auto

end

end
