(* ===== verification/Log_Text.thy ===== *)
theory Log_Text
  imports Comparators "HOL-Library.List_Lexorder" "HOL-Library.Sublist"
begin

text \<open>
  The text side of the logging headers of the RPC library: \<^verbatim>\<open>StringPiece\<close>
  (base/logging/string\_piece.h), the fixed buffer and the stream operators of
  \<^verbatim>\<open>LogStream\<close> that the header defines (base/logging/log\_stream.h), and the source file
  name of a log line (\<^verbatim>\<open>Logger::SourceFile\<close>, base/logging/logging.h). A C string is the
  contents of its memory; its text ends at the first NUL. Lengths, which are C integers, are taken
  to stay in range.
\<close>

section \<open>StringPiece\<close>

text \<open>A piece is a pointer into a character array and a length, either of which may be out of range.\<close>

record StringPiece =
  sp_buf :: bytes
  sp_off :: int
  sp_length :: int

definition c_text :: "bytes \<Rightarrow> bytes" where
  "c_text mem = takeWhile (\<lambda>c. c \<noteq> CHR 0x00) mem"

definition sp_default :: StringPiece where
  "sp_default = \<lparr>sp_buf = [], sp_off = 0, sp_length = 0\<rparr>"

definition sp_cstr :: "bytes \<Rightarrow> StringPiece" where
  "sp_cstr mem = \<lparr>sp_buf = mem, sp_off = 0, sp_length = int (length (c_text mem))\<rparr>"

definition sp_string :: "bytes \<Rightarrow> StringPiece" where
  "sp_string s = \<lparr>sp_buf = s, sp_off = 0, sp_length = int (length s)\<rparr>"

definition sp_offset :: "bytes \<Rightarrow> int \<Rightarrow> StringPiece" where
  "sp_offset mem len = \<lparr>sp_buf = mem, sp_off = 0, sp_length = len\<rparr>"

definition sp_empty :: "StringPiece \<Rightarrow> bool" where
  "sp_empty p \<longleftrightarrow> sp_length p = 0"

definition sp_clear :: "StringPiece \<Rightarrow> StringPiece" where
  "sp_clear p = sp_default"

definition sp_index :: "int \<Rightarrow> StringPiece \<Rightarrow> char outcome" where
  "sp_index i p =
     (if 0 \<le> sp_off p + i \<and> sp_off p + i < int (length (sp_buf p)) then Inr (sp_buf p ! nat (sp_off p + i))
      else undefined_behaviour ''read out of bounds'')"

definition sp_remove_prefix :: "int \<Rightarrow> StringPiece \<Rightarrow> StringPiece" where
  "sp_remove_prefix n p = p\<lparr>sp_off := sp_off p + n, sp_length := sp_length p - n\<rparr>"

definition sp_remove_suffix :: "int \<Rightarrow> StringPiece \<Rightarrow> StringPiece" where
  "sp_remove_suffix n p = p\<lparr>sp_length := sp_length p - n\<rparr>"

text \<open>The first \<open>n\<close> characters a piece points at.\<close>

definition sp_read :: "int \<Rightarrow> StringPiece \<Rightarrow> bytes outcome" where
  "sp_read n p =
     (if 0 \<le> n \<and> 0 \<le> sp_off p \<and> sp_off p + n \<le> int (length (sp_buf p))
      then Inr (take (nat n) (drop (nat (sp_off p)) (sp_buf p)))
      else undefined_behaviour ''read out of bounds'')"

text \<open>\<^verbatim>\<open>memcmp\<close> compares unsigned characters; of its result only the sign is specified.\<close>

fun byte_cmp :: "bytes \<Rightarrow> bytes \<Rightarrow> int" where
  "byte_cmp (a # as) (b # bs) =
     (if (of_char a :: nat) < of_char b then - 1 else if (of_char b :: nat) < of_char a then 1 else byte_cmp as bs)"
| "byte_cmp _ _ = 0"

definition sp_memcmp :: "StringPiece \<Rightarrow> StringPiece \<Rightarrow> int \<Rightarrow> int outcome" where
  "sp_memcmp p q n = obind (sp_read n p) (\<lambda>a. obind (sp_read n q) (\<lambda>b. Inr (byte_cmp a b)))"

definition sp_eq :: "StringPiece \<Rightarrow> StringPiece \<Rightarrow> bool outcome" where
  "sp_eq p q = (if sp_length p = sp_length q then obind (sp_memcmp p q (sp_length p)) (\<lambda>r. Inr (r = 0)) else Inr False)"

definition sp_ne :: "StringPiece \<Rightarrow> StringPiece \<Rightarrow> bool outcome" where
  "sp_ne p q = obind (sp_eq p q) (\<lambda>b. Inr (\<not> b))"

text \<open>The macro \<^verbatim>\<open>STRINGPIECE_BINARY_PREDICATE\<close> and its four uses.\<close>

definition sp_predicate :: "(int \<Rightarrow> int \<Rightarrow> bool) \<Rightarrow> (int \<Rightarrow> int \<Rightarrow> bool) \<Rightarrow> StringPiece \<Rightarrow> StringPiece \<Rightarrow> bool outcome" where
  "sp_predicate cmp auxcmp p q =
     obind (sp_memcmp p q (if sp_length p < sp_length q then sp_length p else sp_length q)) (\<lambda>r.
       Inr (auxcmp r 0 \<or> r = 0 \<and> cmp (sp_length p) (sp_length q)))"

definition sp_less :: "StringPiece \<Rightarrow> StringPiece \<Rightarrow> bool outcome" where
  "sp_less = sp_predicate (<) (<)"

definition sp_le :: "StringPiece \<Rightarrow> StringPiece \<Rightarrow> bool outcome" where
  "sp_le = sp_predicate (\<le>) (<)"

definition sp_ge :: "StringPiece \<Rightarrow> StringPiece \<Rightarrow> bool outcome" where
  "sp_ge = sp_predicate (\<ge>) (>)"

definition sp_greater :: "StringPiece \<Rightarrow> StringPiece \<Rightarrow> bool outcome" where
  "sp_greater = sp_predicate (>) (>)"

definition sp_compare :: "StringPiece \<Rightarrow> StringPiece \<Rightarrow> int outcome" where
  "sp_compare p q =
     obind (sp_memcmp p q (if sp_length p < sp_length q then sp_length p else sp_length q)) (\<lambda>r.
       Inr (if r = 0 then (if sp_length p < sp_length q then - 1 else if sp_length p > sp_length q then 1 else r) else r))"

definition sp_as_string :: "StringPiece \<Rightarrow> bytes outcome" where
  "sp_as_string p = sp_read (sp_length p) p"

definition sp_starts_with :: "StringPiece \<Rightarrow> StringPiece \<Rightarrow> bool outcome" where
  "sp_starts_with p x =
     (if sp_length p \<ge> sp_length x then obind (sp_memcmp p x (sp_length x)) (\<lambda>r. Inr (r = 0)) else Inr False)"

section \<open>Comparison is lexicographic\<close>

definition sp_ok :: "StringPiece \<Rightarrow> bool" where
  "sp_ok p \<longleftrightarrow> 0 \<le> sp_off p \<and> 0 \<le> sp_length p \<and> sp_off p + sp_length p \<le> int (length (sp_buf p))"

definition sp_text :: "StringPiece \<Rightarrow> bytes" where
  "sp_text p = take (nat (sp_length p)) (drop (nat (sp_off p)) (sp_buf p))"

definition byte_key :: "StringPiece \<Rightarrow> nat list" where
  "byte_key p = map of_char (sp_text p)"

lemma sp_text_length: "sp_ok p \<Longrightarrow> int (length (sp_text p)) = sp_length p"
  by (auto simp: sp_ok_def sp_text_def)

lemma sp_read_ok: "sp_ok p \<Longrightarrow> 0 \<le> n \<Longrightarrow> n \<le> sp_length p \<Longrightarrow> sp_read n p = Inr (take (nat n) (sp_text p))"
  by (simp add: sp_ok_def sp_read_def sp_text_def min_absorb1 nat_mono)

lemma of_char_inj: "(of_char a :: nat) = of_char b \<longleftrightarrow> a = b"
  by simp

lemma byte_cmp_zero: "length a = length b \<Longrightarrow> byte_cmp a b = 0 \<longleftrightarrow> a = b"
proof (induction a b rule: byte_cmp.induct)
  case (1 a as b bs)
  then show ?case
    by (auto simp: not_less_iff_gr_or_eq)
qed auto

text \<open>Comparing the common length and then the lengths is the lexicographic order.\<close>

lemma byte_cmp_lex:
  "(byte_cmp (take (min (length a) (length b)) a) (take (min (length a) (length b)) b) < 0
      \<or> byte_cmp (take (min (length a) (length b)) a) (take (min (length a) (length b)) b) = 0 \<and> length a < length b)
    \<longleftrightarrow> map of_char a < (map of_char b :: nat list)"
proof (induction a arbitrary: b)
  case Nil
  then show ?case
    by (cases b) auto
next
  case (Cons x a)
  show ?case
  proof (cases b)
    case (Cons y b')
    with Cons.IH [of b'] show ?thesis
      by (auto simp: not_less_iff_gr_or_eq)
  qed simp
qed

lemma byte_cmp_swap: "byte_cmp b a = - byte_cmp a b"
  by (induction a b rule: byte_cmp.induct) auto

definition common_cmp :: "StringPiece \<Rightarrow> StringPiece \<Rightarrow> int" where
  "common_cmp p q = byte_cmp (take (min (length (sp_text p)) (length (sp_text q))) (sp_text p))
     (take (min (length (sp_text p)) (length (sp_text q))) (sp_text q))"

lemma sp_length_text: "sp_ok p \<Longrightarrow> sp_length p = int (length (sp_text p))"
  by (simp add: sp_text_length)

lemma sp_memcmp_common:
  assumes "sp_ok p" and "sp_ok q"
  shows "sp_memcmp p q (if sp_length p < sp_length q then sp_length p else sp_length q) = Inr (common_cmp p q)"
proof -
  let ?n = "if sp_length p < sp_length q then sp_length p else sp_length q"
  have n: "nat ?n = min (length (sp_text p)) (length (sp_text q))"
    using sp_text_length [OF assms(1)] sp_text_length [OF assms(2)] by auto
  have "0 \<le> ?n" "?n \<le> sp_length p" "?n \<le> sp_length q"
    using assms by (auto simp: sp_ok_def)
  then have "sp_read ?n p = Inr (take (nat ?n) (sp_text p))" "sp_read ?n q = Inr (take (nat ?n) (sp_text q))"
    using assms by (blast intro: sp_read_ok)+
  then show ?thesis
    by (simp only: sp_memcmp_def obind_Inr common_cmp_def n)
qed

lemma sp_predicate_ok:
  "sp_ok p \<Longrightarrow> sp_ok q \<Longrightarrow> sp_predicate cmp auxcmp p q =
     Inr (auxcmp (common_cmp p q) 0 \<or> common_cmp p q = 0 \<and> cmp (int (length (sp_text p))) (int (length (sp_text q))))"
  by (simp only: sp_predicate_def sp_memcmp_common obind_Inr) (simp add: sp_length_text)

lemma byte_key_eq: "byte_key p = byte_key q \<longleftrightarrow> sp_text p = sp_text q"
  by (simp add: byte_key_def inj_map_eq_map inj_on_def)

lemma common_less:
  "byte_key p < byte_key q \<longleftrightarrow> common_cmp p q < 0 \<or> common_cmp p q = 0 \<and> length (sp_text p) < length (sp_text q)"
  using byte_cmp_lex [of "sp_text p" "sp_text q"] by (simp only: byte_key_def common_cmp_def)

lemma common_swap: "common_cmp q p = - common_cmp p q"
  unfolding common_cmp_def min.commute [of "length (sp_text q)"] by (rule byte_cmp_swap)

lemma common_greater:
  "byte_key q < byte_key p \<longleftrightarrow> common_cmp p q > 0 \<or> common_cmp p q = 0 \<and> length (sp_text q) < length (sp_text p)"
  using common_less [of q p] by (simp add: common_swap [of q p])

lemma common_equal: "sp_text p = sp_text q \<longleftrightarrow> common_cmp p q = 0 \<and> length (sp_text p) = length (sp_text q)"
  by (auto simp: common_cmp_def byte_cmp_zero)

lemma sp_less_iff: "sp_ok p \<Longrightarrow> sp_ok q \<Longrightarrow> sp_less p q = Inr (byte_key p < byte_key q)"
  by (simp add: sp_less_def sp_predicate_ok common_less)

lemma sp_greater_iff: "sp_ok p \<Longrightarrow> sp_ok q \<Longrightarrow> sp_greater p q = Inr (byte_key q < byte_key p)"
  by (simp add: sp_greater_def sp_predicate_ok common_greater)

lemma sp_le_iff: "sp_ok p \<Longrightarrow> sp_ok q \<Longrightarrow> sp_le p q = Inr (byte_key p \<le> byte_key q)"
  unfolding not_less [symmetric] common_greater by (auto simp: sp_le_def sp_predicate_ok)

lemma sp_ge_iff: "sp_ok p \<Longrightarrow> sp_ok q \<Longrightarrow> sp_ge p q = Inr (byte_key q \<le> byte_key p)"
  unfolding not_less [symmetric] common_less by (auto simp: sp_ge_def sp_predicate_ok)

lemma sp_compare_sign:
  assumes "sp_ok p" and "sp_ok q"
  shows "\<exists>r. sp_compare p q = Inr r \<and> (r < 0 \<longleftrightarrow> byte_key p < byte_key q) \<and> (r = 0 \<longleftrightarrow> sp_text p = sp_text q)"
proof -
  have "sp_compare p q = Inr (if common_cmp p q = 0 then (if sp_length p < sp_length q then - 1
      else if sp_length p > sp_length q then 1 else common_cmp p q) else common_cmp p q)"
    by (simp only: sp_compare_def sp_memcmp_common [OF assms] obind_Inr)
  then show ?thesis
    using assms by (auto simp: common_less common_equal sp_length_text)
qed

lemma sp_eq_iff:
  assumes "sp_ok p" and "sp_ok q"
  shows "sp_eq p q = Inr (sp_text p = sp_text q)"
proof (cases "sp_length p = sp_length q")
  case True
  then have "sp_memcmp p q (sp_length p) = Inr (common_cmp p q)"
    using sp_memcmp_common [OF assms] by simp
  with True assms show ?thesis
    by (simp add: sp_eq_def common_equal) (simp add: sp_length_text)
next
  case False
  with assms show ?thesis
    by (auto simp: sp_eq_def sp_length_text)
qed

lemma sp_starts_with_iff:
  assumes "sp_ok p" and "sp_ok x"
  shows "sp_starts_with p x = Inr (prefix (sp_text x) (sp_text p))"
proof (cases "sp_length x \<le> sp_length p")
  case True
  then have n: "length (sp_text x) \<le> length (sp_text p)"
    using assms by (simp add: sp_length_text)
  have "byte_cmp (take (length (sp_text x)) (sp_text p)) (sp_text x) = 0
      \<longleftrightarrow> take (length (sp_text x)) (sp_text p) = sp_text x"
    using n by (intro byte_cmp_zero) simp
  also have "\<dots> \<longleftrightarrow> prefix (sp_text x) (sp_text p)"
    by (metis append_eq_conv_conj prefixE prefixI append_take_drop_id)
  finally have "byte_cmp (take (length (sp_text x)) (sp_text p)) (sp_text x) = 0 \<longleftrightarrow> prefix (sp_text x) (sp_text p)" .
  moreover have "sp_memcmp p x (sp_length x) = Inr (byte_cmp (take (length (sp_text x)) (sp_text p)) (sp_text x))"
  proof -
    have "0 \<le> sp_length x" and l: "nat (sp_length x) = length (sp_text x)"
      using assms(2) sp_text_length [OF assms(2)] by (simp_all add: sp_ok_def)
    then have "sp_read (sp_length x) p = Inr (take (length (sp_text x)) (sp_text p))"
      "sp_read (sp_length x) x = Inr (take (length (sp_text x)) (sp_text x))"
      using sp_read_ok [OF assms(1), of "sp_length x"] sp_read_ok [OF assms(2), of "sp_length x"] True by simp_all
    then show ?thesis
      by (simp add: sp_memcmp_def)
  qed
  ultimately show ?thesis
    using True by (simp add: sp_starts_with_def)
next
  case False
  with assms show ?thesis
    by (auto simp: sp_starts_with_def sp_length_text dest: prefix_length_le)
qed

interpretation sp_order: key_order sp_ok "\<lambda>p q. sp_less p q = Inr True" byte_key
  by unfold_locales (simp add: sp_less_iff)

section \<open>FixedBuffer and LogStream\<close>

definition kSmallBuffer :: nat where
  "kSmallBuffer = 4000"

definition kLargeBuffer :: nat where
  "kLargeBuffer = 4000 * 1000"

record FixedBuffer =
  fb_data :: bytes
  fb_cur :: nat

definition new_FixedBuffer :: "bytes \<Rightarrow> FixedBuffer" where
  "new_FixedBuffer garbage = \<lparr>fb_data = garbage, fb_cur = 0\<rparr>"

definition fb_length :: "FixedBuffer \<Rightarrow> int" where
  "fb_length b = int (fb_cur b)"

definition fb_avail :: "FixedBuffer \<Rightarrow> int" where
  "fb_avail b = int (length (fb_data b)) - int (fb_cur b)"

definition fb_memcpy :: "bytes \<Rightarrow> nat \<Rightarrow> FixedBuffer \<Rightarrow> FixedBuffer outcome" where
  "fb_memcpy buf n b =
     (if n \<le> length buf \<and> fb_cur b + n \<le> length (fb_data b)
      then Inr (b\<lparr>fb_data := take (fb_cur b) (fb_data b) @ take n buf @ drop (fb_cur b + n) (fb_data b),
                  fb_cur := fb_cur b + n\<rparr>)
      else undefined_behaviour ''memcpy out of bounds'')"

text \<open>\<^verbatim>\<open>avail()\<close> is converted to an unsigned size, so a negative one counts as large.\<close>

definition fb_append :: "bytes \<Rightarrow> nat \<Rightarrow> FixedBuffer \<Rightarrow> FixedBuffer outcome" where
  "fb_append buf len b =
     (if fb_avail b < 0 \<or> fb_avail b > int len then fb_memcpy buf len b else fb_memcpy buf (nat (fb_avail b)) b)"

definition fb_add :: "nat \<Rightarrow> FixedBuffer \<Rightarrow> FixedBuffer" where
  "fb_add len b = b\<lparr>fb_cur := fb_cur b + len\<rparr>"

definition fb_reset :: "FixedBuffer \<Rightarrow> FixedBuffer" where
  "fb_reset b = b\<lparr>fb_cur := 0\<rparr>"

definition fb_bzero :: "FixedBuffer \<Rightarrow> FixedBuffer" where
  "fb_bzero b = b\<lparr>fb_data := replicate (length (fb_data b)) (CHR 0x00)\<rparr>"

definition fb_toStringPiece :: "FixedBuffer \<Rightarrow> StringPiece" where
  "fb_toStringPiece b = sp_offset (fb_data b) (fb_length b)"

definition fb_toString :: "FixedBuffer \<Rightarrow> bytes outcome" where
  "fb_toString b = sp_as_string (fb_toStringPiece b)"

text \<open>The stream operators defined in the header, by the type of their argument.\<close>

datatype log_item = LBool bool | LChar char | LCstr "bytes option" | LString bytes | LPiece StringPiece
  | LBuffer FixedBuffer

fun log_item_append :: "log_item \<Rightarrow> FixedBuffer \<Rightarrow> FixedBuffer outcome" where
  "log_item_append (LBool v) b = fb_append (if v then ''1'' else ''0'') 1 b"
| "log_item_append (LChar v) b = fb_append [v] 1 b"
| "log_item_append (LCstr (Some mem)) b =
     (if CHR 0x00 \<in> set mem then fb_append mem (length (c_text mem)) b
      else undefined_behaviour ''string without end'')"
| "log_item_append (LCstr None) b = fb_append ''(null)'' 6 b"
| "log_item_append (LString v) b = fb_append v (length v) b"
| "log_item_append (LPiece v) b =
     (if 0 \<le> sp_off v then fb_append (drop (nat (sp_off v)) (sp_buf v)) (nat (sp_length v)) b
      else undefined_behaviour ''read out of bounds'')"
| "log_item_append (LBuffer v) b = fb_append (fb_data v) (nat (sp_length (fb_toStringPiece v))) b"

section \<open>The buffer as a bounded text\<close>

definition fb_ok :: "FixedBuffer \<Rightarrow> bool" where
  "fb_ok b \<longleftrightarrow> fb_cur b \<le> length (fb_data b)"

definition fb_text :: "FixedBuffer \<Rightarrow> bytes" where
  "fb_text b = take (fb_cur b) (fb_data b)"

fun item_ok :: "log_item \<Rightarrow> bool" where
  "item_ok (LCstr (Some mem)) \<longleftrightarrow> CHR 0x00 \<in> set mem"
| "item_ok (LPiece v) \<longleftrightarrow> sp_ok v"
| "item_ok (LBuffer v) \<longleftrightarrow> fb_ok v"
| "item_ok _ \<longleftrightarrow> True"

fun item_text :: "log_item \<Rightarrow> bytes" where
  "item_text (LBool v) = (if v then ''1'' else ''0'')"
| "item_text (LChar v) = [v]"
| "item_text (LCstr (Some mem)) = c_text mem"
| "item_text (LCstr None) = ''(null)''"
| "item_text (LString v) = v"
| "item_text (LPiece v) = sp_text v"
| "item_text (LBuffer v) = fb_text v"

lemma fb_append_text:
  assumes "fb_ok b" and "len \<le> length buf"
  shows "\<exists>b'. fb_append buf len b = Inr b' \<and> fb_ok b' \<and> length (fb_data b') = length (fb_data b)
    \<and> fb_text b' = take (length (fb_data b)) (fb_text b @ take len buf)"
proof (cases "fb_avail b > int len")
  case True
  with assms show ?thesis
    by (auto simp: fb_append_def fb_memcpy_def fb_avail_def fb_ok_def fb_text_def min_def)
next
  case False
  have n: "nat (fb_avail b) = length (fb_data b) - fb_cur b" "\<not> fb_avail b < 0"
    using assms(1) by (simp_all add: fb_avail_def fb_ok_def)
  then have "length (fb_data b) - fb_cur b \<le> len"
    using False by linarith
  with False n assms show ?thesis
    by (auto simp: fb_append_def fb_memcpy_def fb_ok_def fb_text_def min_def)
qed

lemma c_text_prefix: "length (c_text mem) \<le> length mem" "take (length (c_text mem)) mem = c_text mem"
  by (simp_all add: c_text_def length_takeWhile_le takeWhile_eq_take [symmetric])

lemma log_item_source:
  assumes "item_ok x"
  shows "\<exists>buf len. log_item_append x b = fb_append buf len b \<and> len \<le> length buf \<and> take len buf = item_text x"
proof (cases x rule: item_text.cases)
  case (1 v)
  then show ?thesis
    by (intro exI [of _ "if v then ''1'' else ''0''"] exI [of _ 1]) simp
next
  case (2 v)
  then show ?thesis
    by (intro exI [of _ "[v]"] exI [of _ 1]) simp
next
  case (3 mem)
  then show ?thesis
    using assms c_text_prefix [of mem] by auto
next
  case 4
  then show ?thesis
    by (intro exI [of _ "''(null)''"] exI [of _ 6]) simp
next
  case (5 v)
  then show ?thesis
    by (intro exI [of _ v] exI [of _ "length v"]) simp
next
  case (6 v)
  then show ?thesis
    using assms by (intro exI [of _ "drop (nat (sp_off v)) (sp_buf v)"] exI [of _ "nat (sp_length v)"])
      (auto simp: sp_ok_def sp_text_def)
next
  case (7 v)
  then show ?thesis
    using assms by (intro exI [of _ "fb_data v"] exI [of _ "fb_cur v"])
      (simp add: fb_toStringPiece_def sp_offset_def fb_length_def fb_ok_def fb_text_def)
qed

lemma log_item_append_text:
  assumes "fb_ok b" and "item_ok x"
  shows "\<exists>b'. log_item_append x b = Inr b' \<and> fb_ok b' \<and> length (fb_data b') = length (fb_data b)
    \<and> fb_text b' = take (length (fb_data b)) (fb_text b @ item_text x)"
  using log_item_source [OF assms(2), of b] fb_append_text [OF assms(1)] by metis

lemma log_items_text:
  assumes "fb_ok b" and "\<forall>x\<in>set xs. item_ok x"
  shows "\<exists>b'. ofold log_item_append xs b = Inr b' \<and> fb_ok b' \<and> length (fb_data b') = length (fb_data b)
    \<and> fb_text b' = take (length (fb_data b)) (fb_text b @ concat (map item_text xs))"
  using assms
proof (induction xs arbitrary: b)
  case Nil
  then show ?case
    by (simp add: fb_ok_def fb_text_def)
next
  case (Cons x xs)
  then obtain b1 where b1: "log_item_append x b = Inr b1" "fb_ok b1" "length (fb_data b1) = length (fb_data b)"
    "fb_text b1 = take (length (fb_data b)) (fb_text b @ item_text x)"
    using log_item_append_text [of b x] by auto
  obtain b2 where "ofold log_item_append xs b1 = Inr b2" "fb_ok b2" "length (fb_data b2) = length (fb_data b1)"
    "fb_text b2 = take (length (fb_data b1)) (fb_text b1 @ concat (map item_text xs))"
    using Cons.IH [OF b1(2)] Cons.prems(2) by auto
  moreover have "take n (take n (a @ c) @ d) = take n (a @ c @ d)" for n and a c d :: bytes
    by (simp add: min_def)
  ultimately show ?case
    using b1 by simp
qed

section \<open>The source file of a log line\<close>

record SourceFile =
  sf_data :: bytes
  sf_size :: int

definition strrchr :: "bytes \<Rightarrow> char \<Rightarrow> nat option" where
  "strrchr mem c =
     (let t = c_text mem
      in if c \<in> set t then Some (length t - 1 - length (takeWhile (\<lambda>x. x \<noteq> c) (rev t))) else None)"

text \<open>From a character array (a string literal with its terminator), and from a pointer.\<close>

definition new_SourceFile_array :: "bytes \<Rightarrow> SourceFile" where
  "new_SourceFile_array arr =
     (case strrchr arr (CHR ''/'') of
        None \<Rightarrow> \<lparr>sf_data = arr, sf_size = int (length arr) - 1\<rparr>
      | Some i \<Rightarrow> \<lparr>sf_data = drop (i + 1) arr, sf_size = int (length arr) - 1 - int (i + 1)\<rparr>)"

definition new_SourceFile :: "bytes \<Rightarrow> SourceFile" where
  "new_SourceFile filename =
     (let d = (case strrchr filename (CHR ''/'') of None \<Rightarrow> filename | Some i \<Rightarrow> drop (i + 1) filename)
      in \<lparr>sf_data = d, sf_size = int (length (c_text d))\<rparr>)"

lemma strrchr_split:
  assumes "c \<notin> set base" and "CHR 0x00 \<notin> set (dir @ c # base)"
  shows "strrchr (dir @ c # base @ [CHR 0x00]) c = Some (length dir)"
proof -
  have "c_text (dir @ c # base @ [CHR 0x00]) = dir @ c # base"
    using assms(2) by (auto simp: c_text_def takeWhile_append takeWhile_tail)
  moreover have "takeWhile (\<lambda>x. x \<noteq> c) (rev (dir @ c # base)) = rev base"
    using assms(1) by (auto simp: takeWhile_append)
  ultimately show ?thesis
    by (simp add: strrchr_def)
qed

section \<open>Properties\<close>

text \<open>
  Comparison of string pieces is the lexicographic order of their bytes, taken as unsigned. On
  pieces within their buffers no operator reads out of bounds; the six operators agree with each
  other and with the sign of \<^verbatim>\<open>compare\<close>, and \<^verbatim>\<open>starts_with\<close> is the prefix relation.
\<close>

theorem StringPiece_lexicographic:
  assumes "sp_ok p" and "sp_ok q"
  shows "sp_less p q = Inr (byte_key p < byte_key q) \<and> sp_le p q = Inr (byte_key p \<le> byte_key q)
    \<and> sp_greater p q = Inr (byte_key p > byte_key q) \<and> sp_ge p q = Inr (byte_key p \<ge> byte_key q)
    \<and> sp_eq p q = Inr (sp_text p = sp_text q) \<and> sp_ne p q = Inr (sp_text p \<noteq> sp_text q)
    \<and> (\<exists>r. sp_compare p q = Inr r \<and> (r < 0 \<longleftrightarrow> byte_key p < byte_key q) \<and> (r = 0 \<longleftrightarrow> sp_text p = sp_text q))
    \<and> sp_starts_with p q = Inr (prefix (sp_text q) (sp_text p))"
  using assms sp_compare_sign [OF assms]
  by (simp add: sp_less_iff sp_le_iff sp_greater_iff sp_ge_iff sp_eq_iff sp_ne_def sp_starts_with_iff)

theorem StringPiece_lexicographic_witness:
  "sp_less (sp_string ''ab'') (sp_remove_prefix 1 (sp_string ''xb'')) = Inr True
   \<and> sp_starts_with (sp_string ''ab'') (sp_remove_suffix 1 (sp_string ''ax'')) = Inr True"
proof -
  have ok: "sp_ok (sp_string ''ab'')" "sp_ok (sp_remove_prefix 1 (sp_string ''xb''))"
    "sp_ok (sp_remove_suffix 1 (sp_string ''ax''))"
    by (simp_all add: sp_ok_def sp_string_def sp_remove_prefix_def sp_remove_suffix_def)
  show ?thesis
    using StringPiece_lexicographic [OF ok(1,2)] StringPiece_lexicographic [OF ok(1,3)]
    by (simp add: byte_key_def sp_text_def sp_string_def sp_remove_prefix_def sp_remove_suffix_def)
qed

text \<open>
  A log line is its text cut at the size of the buffer. Whatever is streamed into an empty
  buffer, no memory outside it is written, and it then holds exactly the first bytes of the
  concatenated texts, as many as it has room for: too long a line is truncated, never dropped, and
  nothing is written past the end.
\<close>

theorem LogStream_truncates:
  assumes "\<forall>x\<in>set xs. item_ok x"
  shows "\<exists>b. ofold log_item_append xs (new_FixedBuffer garbage) = Inr b \<and> length (fb_data b) = length garbage
    \<and> fb_toString b = Inr (take (length garbage) (concat (map item_text xs)))"
proof -
  have "fb_ok (new_FixedBuffer garbage)" "fb_text (new_FixedBuffer garbage) = []"
    "fb_data (new_FixedBuffer garbage) = garbage"
    by (simp_all add: fb_ok_def fb_text_def new_FixedBuffer_def)
  with log_items_text [OF this(1) assms] obtain b where "ofold log_item_append xs (new_FixedBuffer garbage) = Inr b"
    "fb_ok b" "length (fb_data b) = length garbage" "fb_text b = take (length garbage) (concat (map item_text xs))"
    by auto
  moreover from this have "fb_toString b = Inr (fb_text b)"
    by (simp add: fb_toString_def sp_as_string_def sp_read_def fb_toStringPiece_def sp_offset_def fb_length_def
        fb_ok_def fb_text_def)
  ultimately show ?thesis
    by auto
qed

theorem LogStream_truncates_witness:
  "\<exists>b. ofold log_item_append [LString ''key '', LCstr None, LBool True] (new_FixedBuffer ''........'') = Inr b
     \<and> fb_toString b = Inr ''key (nul''"
  using LogStream_truncates [of "[LString ''key '', LCstr None, LBool True]" "''........''"] by auto

text \<open>
  The file name in a log line is the part of the path after its last slash, for both ways of
  constructing it.
\<close>

theorem SourceFile_basename:
  assumes "CHR 0x00 \<notin> set dir" and "CHR 0x00 \<notin> set base" and "CHR ''/'' \<notin> set base"
    and "arr = dir @ CHR ''/'' # base @ [CHR 0x00]"
  shows "new_SourceFile_array arr = \<lparr>sf_data = base @ [CHR 0x00], sf_size = int (length base)\<rparr>
    \<and> new_SourceFile arr = new_SourceFile_array arr"
proof -
  have "strrchr arr (CHR ''/'') = Some (length dir)"
    using strrchr_split [OF assms(3), of dir] assms(1,2,4) by simp
  moreover have "c_text (base @ [CHR 0x00]) = base"
    using assms(2) by (auto simp: c_text_def takeWhile_append)
  ultimately show ?thesis
    by (simp add: new_SourceFile_array_def new_SourceFile_def assms(4))
qed

theorem SourceFile_basename_witness:
  "sf_size (new_SourceFile_array (''src/peer.cc'' @ [CHR 0x00])) = 7"
  using SourceFile_basename [of "''src''" "''peer.cc''" "''src/peer.cc'' @ [CHR 0x00]"] by simp

end
