(* ===== verification/Clocks.thy ===== *)
theory Clocks
  imports Comparators "HOL-Library.Signed_Division"
begin

text \<open>
  The time types of the RPC library: \<^verbatim>\<open>Timestamp\<close> (base/time/timestamp.h), the cycle counter
  \<^verbatim>\<open>TimeCycle\<close> (base/time/timecycle.h, base/time/get\_clock.h), \<^verbatim>\<open>Date\<close>
  (base/time/date.h) and \<^verbatim>\<open>Timer\<close> (net/event/timer.h). Signed 64-bit values are integers
  with overflow as undefined behaviour; unsigned ones are words. The functions that compute with
  floating point seconds (\<^verbatim>\<open>timeDifference\<close>, \<^verbatim>\<open>addTime\<close>,
  \<^verbatim>\<open>TimeDifferenceSecond\<close>, \<^verbatim>\<open>AddTime\<close>) are not modelled; where a timer uses one it
  is the parameter \<open>add_time\<close>.
\<close>

section \<open>Timestamp\<close>

definition i64 :: "int \<Rightarrow> int outcome" where
  "i64 x = (if - (2 ^ 63) \<le> x \<and> x < 2 ^ 63 then Inr x else undefined_behaviour ''signed overflow'')"

record Timestamp =
  microSecondsSinceEpoch :: int

definition kMicroSecondsPerSecond :: int where
  "kMicroSecondsPerSecond = 1000 * 1000"

definition ts_invalid :: Timestamp where
  "ts_invalid = \<lparr>microSecondsSinceEpoch = 0\<rparr>"

definition ts_valid :: "Timestamp \<Rightarrow> bool" where
  "ts_valid t \<longleftrightarrow> microSecondsSinceEpoch t > 0"

definition ts_swap :: "Timestamp \<Rightarrow> Timestamp \<Rightarrow> Timestamp \<times> Timestamp" where
  "ts_swap a b = (a\<lparr>microSecondsSinceEpoch := microSecondsSinceEpoch b\<rparr>,
     b\<lparr>microSecondsSinceEpoch := microSecondsSinceEpoch a\<rparr>)"

definition secondsSinceEpoch :: "Timestamp \<Rightarrow> int" where
  "secondsSinceEpoch t = microSecondsSinceEpoch t sdiv kMicroSecondsPerSecond"

definition fromUnixTime :: "int \<Rightarrow> int \<Rightarrow> Timestamp outcome" where
  "fromUnixTime t us = obind (i64 (t * kMicroSecondsPerSecond)) (\<lambda>x. obind (i64 (x + us)) (\<lambda>y.
     Inr \<lparr>microSecondsSinceEpoch = y\<rparr>))"

definition ts_less :: "Timestamp \<Rightarrow> Timestamp \<Rightarrow> bool" where
  "ts_less a b \<longleftrightarrow> microSecondsSinceEpoch a < microSecondsSinceEpoch b"

definition ts_eq :: "Timestamp \<Rightarrow> Timestamp \<Rightarrow> bool" where
  "ts_eq a b \<longleftrightarrow> microSecondsSinceEpoch a = microSecondsSinceEpoch b"

definition timeDifferenceUs :: "Timestamp \<Rightarrow> Timestamp \<Rightarrow> int outcome" where
  "timeDifferenceUs high low = i64 (microSecondsSinceEpoch high - microSecondsSinceEpoch low)"

interpretation timestamp_order: key_order "\<lambda>_. True" ts_less microSecondsSinceEpoch
  by unfold_locales (simp add: ts_less_def)

section \<open>TimeCycle\<close>

text \<open>The two halves that \<^verbatim>\<open>rdtsc\<close> delivers, put together.\<close>

definition get_cycles :: "u32 \<Rightarrow> u32 \<Rightarrow> u64" where
  "get_cycles low high = or (push_bit 32 (ucast high)) (ucast low)"

record TimeCycle =
  tsc_since_epoch :: u64

definition tc_valid :: "TimeCycle \<Rightarrow> bool" where
  "tc_valid t \<longleftrightarrow> tsc_since_epoch t > 0"

definition tc_invalid :: TimeCycle where
  "tc_invalid = \<lparr>tsc_since_epoch = 0\<rparr>"

definition tc_swap :: "TimeCycle \<Rightarrow> TimeCycle \<Rightarrow> TimeCycle \<times> TimeCycle" where
  "tc_swap a b = (a\<lparr>tsc_since_epoch := tsc_since_epoch b\<rparr>, b\<lparr>tsc_since_epoch := tsc_since_epoch a\<rparr>)"

definition u_div :: "u64 \<Rightarrow> u64 \<Rightarrow> u64 outcome" where
  "u_div x y = (if y = 0 then undefined_behaviour ''division by zero'' else Inr (x div y))"

definition ToMicroSec :: "u64 \<Rightarrow> u64 \<Rightarrow> u64 outcome" where
  "ToMicroSec tsc_rate_mhz cycle = u_div cycle tsc_rate_mhz"

definition MicroSecSinceEpoch :: "u64 \<Rightarrow> TimeCycle \<Rightarrow> u64 outcome" where
  "MicroSecSinceEpoch tsc_rate_mhz t = u_div (tsc_since_epoch t) tsc_rate_mhz"

definition SecondSinceEpoch :: "u64 \<Rightarrow> TimeCycle \<Rightarrow> u64 outcome" where
  "SecondSinceEpoch tsc_rate t = u_div (tsc_since_epoch t) tsc_rate"

definition ToNanoSec :: "u64 \<Rightarrow> u64 \<Rightarrow> u64 outcome" where
  "ToNanoSec tsc_rate_mhz cycle = u_div (cycle * 1000) tsc_rate_mhz"

definition ToCycles :: "u64 \<Rightarrow> u64 \<Rightarrow> u64" where
  "ToCycles tsc_rate_mhz micro_seconds = micro_seconds * tsc_rate_mhz"

text \<open>
  The difference is a signed integer, the rate an unsigned one: for the division the difference is
  converted back to unsigned, and the quotient to signed.
\<close>

definition TimeDifferenceMicroSec :: "u64 \<Rightarrow> TimeCycle \<Rightarrow> TimeCycle \<Rightarrow> int outcome" where
  "TimeDifferenceMicroSec tsc_rate_mhz high low =
     (let diff = sint (tsc_since_epoch high - tsc_since_epoch low)
      in obind (u_div (word_of_int diff) tsc_rate_mhz) (\<lambda>q. Inr (sint q)))"

definition tc_less :: "TimeCycle \<Rightarrow> TimeCycle \<Rightarrow> bool" where
  "tc_less a b \<longleftrightarrow> tsc_since_epoch a < tsc_since_epoch b"

definition tc_eq :: "TimeCycle \<Rightarrow> TimeCycle \<Rightarrow> bool" where
  "tc_eq a b \<longleftrightarrow> tsc_since_epoch a = tsc_since_epoch b"

interpretation timecycle_order: key_order "\<lambda>_. True" tc_less tsc_since_epoch
  by unfold_locales (simp add: tc_less_def)

section \<open>Date\<close>

record Date =
  julianDayNumber :: int

definition kDaysPerWeek :: int where
  "kDaysPerWeek = 7"

definition date_valid :: "Date \<Rightarrow> bool" where
  "date_valid d \<longleftrightarrow> julianDayNumber d > 0"

definition weekDay :: "Date \<Rightarrow> int" where
  "weekDay d = (julianDayNumber d + 1) smod kDaysPerWeek"

definition date_less :: "Date \<Rightarrow> Date \<Rightarrow> bool" where
  "date_less a b \<longleftrightarrow> julianDayNumber a < julianDayNumber b"

definition date_eq :: "Date \<Rightarrow> Date \<Rightarrow> bool" where
  "date_eq a b \<longleftrightarrow> julianDayNumber a = julianDayNumber b"

interpretation date_order: key_order "\<lambda>_. True" date_less julianDayNumber
  by unfold_locales (simp add: date_less_def)

section \<open>Timer\<close>

text \<open>\<open>repeat\<close> records \<^verbatim>\<open>interval > 0.0\<close>; \<open>'d\<close> stands for the floating point type.\<close>

record 'd Timer =
  tm_expiration :: TimeCycle
  tm_interval :: 'd
  tm_repeat :: bool
  tm_sequence :: int

text \<open>The constructor, with the static counter \<^verbatim>\<open>created_num_\<close>.\<close>

definition new_Timer :: "('d \<Rightarrow> bool) \<Rightarrow> TimeCycle \<Rightarrow> 'd \<Rightarrow> int \<Rightarrow> 'd Timer \<times> int" where
  "new_Timer positive wh interval created_num =
     (\<lparr>tm_expiration = wh, tm_interval = interval, tm_repeat = positive interval, tm_sequence = created_num\<rparr>,
      created_num + 1)"

definition Restart :: "(TimeCycle \<Rightarrow> 'd \<Rightarrow> TimeCycle) \<Rightarrow> TimeCycle \<Rightarrow> 'd Timer \<Rightarrow> 'd Timer" where
  "Restart add_time now t =
     (if tm_repeat t then t\<lparr>tm_expiration := add_time now (tm_interval t)\<rparr>
      else t\<lparr>tm_expiration := tc_invalid\<rparr>)"

record TimerId =
  ti_timer :: "nat option"
  ti_sequence :: int

definition default_TimerId :: TimerId where
  "default_TimerId = \<lparr>ti_timer = None, ti_sequence = 0\<rparr>"

definition TimerId_eq :: "TimerId \<Rightarrow> TimerId \<Rightarrow> bool" where
  "TimerId_eq a b \<longleftrightarrow> ti_timer a = ti_timer b \<and> ti_sequence a = ti_sequence b"

text \<open>A series of timers.\<close>

fun new_Timers :: "('d \<Rightarrow> bool) \<Rightarrow> (TimeCycle \<times> 'd) list \<Rightarrow> int \<Rightarrow> 'd Timer list \<times> int" where
  "new_Timers positive [] n = ([], n)"
| "new_Timers positive ((w, i) # ws) n =
     (let (t, n1) = new_Timer positive w i n; (ts, n2) = new_Timers positive ws n1 in (t # ts, n2))"

lemma new_Timers_sequence:
  "new_Timers positive ws n = (ts, n') \<Longrightarrow> map tm_sequence ts = [n..n + int (length ws) - 1] \<and> n' = n + int (length ws)"
proof (induction ws arbitrary: n ts n')
  case (Cons w ws)
  obtain w1 i where w: "w = (w1, i)"
    by fastforce
  obtain us m where us: "new_Timers positive ws (n + 1) = (us, m)"
    by fastforce
  from Cons.IH [OF us] Cons.prems us w show ?case
    by (auto simp: new_Timer_def upto_rec1)
qed simp

section \<open>Lemmas on differences\<close>

lemma sint_small: "unat (x :: u64) < 2 ^ 63 \<Longrightarrow> sint x = int (unat x)"
proof -
  assume "unat x < 2 ^ 63"
  then have "int (unat x) < 2 ^ 63"
    by (metis of_nat_less_iff of_nat_numeral of_nat_power)
  then have w: "uint x < 2 ^ 63"
    by simp
  have "sint x = uint x"
    unfolding sint_uint by (rule signed_take_bit_int_eq_self) (use w in \<open>auto intro: order_trans [of _ 0]\<close>)
  then show ?thesis
    by simp
qed

lemma TimeDifferenceMicroSec_unsigned:
  "mhz \<noteq> 0 \<Longrightarrow> TimeDifferenceMicroSec mhz high low = Inr (sint ((tsc_since_epoch high - tsc_since_epoch low) div mhz))"
  by (simp add: TimeDifferenceMicroSec_def u_div_def)

section \<open>Properties\<close>

text \<open>
  Time differences in microseconds. If the later reading is passed first, at most
  \<open>2 ^ 63 - 1\<close> cycles after the earlier one, \<^verbatim>\<open>TimeDifferenceMicroSec\<close> returns the
  elapsed cycles divided by the rate, rounded down.
\<close>

theorem TimeDifferenceMicroSec_forward:
  assumes "tsc_since_epoch low \<le> tsc_since_epoch high" and "mhz \<noteq> 0"
    and "unat (tsc_since_epoch high) - unat (tsc_since_epoch low) < 2 ^ 63"
  shows "TimeDifferenceMicroSec mhz high low =
    Inr (int ((unat (tsc_since_epoch high) - unat (tsc_since_epoch low)) div unat mhz))"
proof -
  have q: "unat ((tsc_since_epoch high - tsc_since_epoch low) div mhz) =
      (unat (tsc_since_epoch high) - unat (tsc_since_epoch low)) div unat mhz"
    using assms(1) by (simp add: unat_div_distrib unat_sub)
  then have "unat ((tsc_since_epoch high - tsc_since_epoch low) div mhz) < 2 ^ 63"
    using assms(3) by (metis div_le_dividend order_le_less_trans)
  with q assms(2) show ?thesis
    by (simp add: TimeDifferenceMicroSec_unsigned sint_small)
qed

theorem TimeDifferenceMicroSec_forward_witness:
  "TimeDifferenceMicroSec 2000 \<lparr>tsc_since_epoch = 9000\<rparr> \<lparr>tsc_since_epoch = 1000\<rparr> = Inr 4"
  using TimeDifferenceMicroSec_forward [of "\<lparr>tsc_since_epoch = 1000\<rparr>" "\<lparr>tsc_since_epoch = 9000\<rparr>" 2000] by simp

text \<open>
  A negative time difference comes out as a huge positive one. The function returns a signed
  integer and computes a signed difference, but divides it as an unsigned one: whenever the first
  reading is the earlier one and the rate is at least 2 cycles per microsecond, the result is
  positive.
\<close>

theorem TimeDifferenceMicroSec_backward:
  assumes "tsc_since_epoch high < tsc_since_epoch low"
    and "unat (tsc_since_epoch low) - unat (tsc_since_epoch high) \<le> 2 ^ 63" and "2 \<le> mhz" and "mhz \<le> 2 ^ 32"
  shows "\<exists>r > 0. TimeDifferenceMicroSec mhz high low = Inr r
    \<and> r = int ((2 ^ 64 - (unat (tsc_since_epoch low) - unat (tsc_since_epoch high))) div unat mhz)"
proof -
  let ?h = "unat (tsc_since_epoch high)" and ?l = "unat (tsc_since_epoch low)"
  let ?q = "(tsc_since_epoch high - tsc_since_epoch low) div mhz"
  have lt: "?h < ?l" and m: "2 \<le> unat mhz" "unat mhz \<le> 2 ^ 32"
    using assms(1,3,4) by (simp_all add: word_less_nat_alt word_le_nat_alt)
  have "unat (tsc_since_epoch high - tsc_since_epoch low) = 2 ^ 64 - (?l - ?h)"
    using lt by (simp add: unat_sub_if_size word_size)
  then have q: "unat ?q = (2 ^ 64 - (?l - ?h)) div unat mhz"
    by (simp add: unat_div_distrib)
  have "unat ?q \<le> (2 ^ 64 - (?l - ?h)) div 2"
    unfolding q using m(1) by (intro div_le_mono2) simp_all
  also have "\<dots> < 2 ^ 63"
    using lt by simp
  finally have "unat ?q < 2 ^ 63" .
  moreover have "unat mhz \<le> 2 ^ 64 - (?l - ?h)"
    using assms(2) m(2) by simp
  then have "0 < unat ?q"
    unfolding q using m(1) by (simp add: div_greater_zero_iff)
  moreover have "mhz \<noteq> 0"
    using m(1) by auto
  ultimately have "TimeDifferenceMicroSec mhz high low = Inr (int (unat ?q))" "0 < unat ?q"
    by (simp_all add: TimeDifferenceMicroSec_unsigned sint_small)
  then show ?thesis
    unfolding q using of_nat_0_less_iff by blast
qed

theorem TimeDifferenceMicroSec_backward_witness:
  "\<exists>r > 0. TimeDifferenceMicroSec 2000 \<lparr>tsc_since_epoch = 1000\<rparr> \<lparr>tsc_since_epoch = 9000\<rparr> = Inr r"
  using TimeDifferenceMicroSec_backward [of "\<lparr>tsc_since_epoch = 1000\<rparr>" "\<lparr>tsc_since_epoch = 9000\<rparr>" 2000] by auto

text \<open>
  Unit conversions. Converting microseconds to cycles and back gives the same number as long as
  the cycles fit into 64 bits; converting cycles to nanoseconds is exact, rounded down, precisely as
  long as a thousand times the cycles fits, which the product before the division needs.
\<close>

theorem cycle_conversions:
  assumes "mhz \<noteq> 0"
  shows "(unat us * unat mhz < 2 ^ 64 \<longrightarrow> ToMicroSec mhz (ToCycles mhz us) = Inr us)
    \<and> (unat cycle * 1000 < 2 ^ 64 \<longrightarrow>
         (\<exists>ns. ToNanoSec mhz cycle = Inr ns \<and> unat ns = unat cycle * 1000 div unat mhz))
    \<and> (\<exists>ns. ToNanoSec mhz cycle = Inr ns \<and> unat ns = (unat cycle * 1000 mod 2 ^ 64) div unat mhz)"
proof -
  have m: "unat mhz \<noteq> 0"
    using assms by (simp add: unat_eq_zero)
  have "us * mhz div mhz = us" if "unat us * unat mhz < 2 ^ 64"
  proof -
    have "unat (us * mhz) = unat us * unat mhz"
      using that unat_mult_lem [of us mhz] by simp
    then have "unat (us * mhz div mhz) = unat us"
      using m by (simp add: unat_div_distrib)
    then show ?thesis
      by (simp add: word_unat_eq_iff)
  qed
  moreover have "unat (cycle * 1000) = unat cycle * 1000 mod 2 ^ 64"
    using unat_word_ariths(2) [of cycle 1000] by simp
  then have "unat (cycle * 1000 div mhz) = (unat cycle * 1000 mod 2 ^ 64) div unat mhz"
    by (simp add: unat_div_distrib)
  ultimately show ?thesis
    using assms by (simp add: ToMicroSec_def ToCycles_def ToNanoSec_def u_div_def)
qed

theorem cycle_conversions_witness:
  "ToMicroSec 2000 (ToCycles 2000 5) = Inr 5 \<and> (\<exists>ns. ToNanoSec 2000 9000 = Inr ns \<and> unat ns = 4500)"
  using cycle_conversions [of 2000 5 9000] by simp

text \<open>
  A timestamp built from Unix seconds and a microsecond part has these seconds, whenever the
  value fits into 64 bits; and differences of timestamps undo it.
\<close>

theorem Timestamp_roundtrip:
  assumes "fromUnixTime t us = Inr x" and "0 \<le> t" and "0 \<le> us" and "us < kMicroSecondsPerSecond"
  shows "secondsSinceEpoch x = t \<and> (\<forall>y. fromUnixTime t 0 = Inr y \<longrightarrow> timeDifferenceUs x y = Inr us)"
proof -
  have x: "microSecondsSinceEpoch x = t * kMicroSecondsPerSecond + us"
    using assms(1) by (auto simp: fromUnixTime_def i64_def split: if_splits)
  have nn: "0 \<le> t * 1000000 + us" and d: "(t * 1000000 + us) div 1000000 = t"
    using assms(2-4) by (auto simp: kMicroSecondsPerSecond_def)
  have "secondsSinceEpoch x = (t * 1000000 + us) div 1000000"
    using nn by (cases "t * 1000000 + us = 0")
      (simp_all add: secondsSinceEpoch_def x kMicroSecondsPerSecond_def signed_divide_int_def sgn_if)
  then have "secondsSinceEpoch x = t"
    unfolding d .
  moreover have "timeDifferenceUs x y = Inr us" if "fromUnixTime t 0 = Inr y" for y
    using that assms(3,4) x
    by (auto simp: fromUnixTime_def i64_def timeDifferenceUs_def kMicroSecondsPerSecond_def split: if_splits)
  ultimately show ?thesis
    by blast
qed

theorem Timestamp_roundtrip_witness:
  "secondsSinceEpoch \<lparr>microSecondsSinceEpoch = 1700000000000007\<rparr> = 1700000000"
  using Timestamp_roundtrip [of 1700000000 7 "\<lparr>microSecondsSinceEpoch = 1700000000000007\<rparr>"]
  by (simp add: fromUnixTime_def i64_def kMicroSecondsPerSecond_def)

text \<open>
  Timers are numbered uniquely in the order of their creation, so that two timer identifiers are
  equal only if they name the same timer.
\<close>

theorem Timer_sequences_unique:
  assumes "new_Timers positive ws n = (ts, n')"
  shows "distinct (map tm_sequence ts) \<and> sorted (map tm_sequence ts)
    \<and> (\<forall>i<length ts. \<forall>j<length ts. TimerId_eq \<lparr>ti_timer = a, ti_sequence = tm_sequence (ts ! i)\<rparr>
         \<lparr>ti_timer = b, ti_sequence = tm_sequence (ts ! j)\<rparr> \<longrightarrow> i = j)"
proof -
  have seq: "map tm_sequence ts = [n..n + int (length ws) - 1]"
    using new_Timers_sequence [OF assms] by blast
  then have d: "distinct (map tm_sequence ts)" "sorted (map tm_sequence ts)"
    by simp_all
  moreover have "i = j" if "i < length ts" "j < length ts" "tm_sequence (ts ! i) = tm_sequence (ts ! j)" for i j
    using d(1) that nth_eq_iff_index_eq [of "map tm_sequence ts" i j] by simp
  ultimately show ?thesis
    by (simp add: TimerId_eq_def)
qed

theorem Timer_sequences_unique_witness:
  "distinct [0, 1 :: int]"
  using Timer_sequences_unique [of "\<lambda>i. i > (0 :: int)" "[(tc_invalid, 5), (tc_invalid, 0)]" 0]
  by (simp add: new_Timer_def)

end
