(* ===== verification/Blocking_Queue.thy ===== *)
theory Blocking_Queue
  imports Jkv_Prelude
begin

text \<open>
  \<^verbatim>\<open>BlockingQueue\<close> (jrpc/base/blocking\_queue.h) with the mutex and the condition variable it
  is built from (base/thread/mutex.h, base/thread/condition.h), as a step relation over threads that
  interleave. A thread's program counter is the statement it executes next. Steps follow POSIX:
  \<^verbatim>\<open>pthread_cond_wait\<close> releases the mutex and starts waiting in one step, wakes up when it is
  signalled or spuriously, and takes the mutex again before it returns;
  \<^verbatim>\<open>pthread_cond_signal\<close> wakes at least one of the waiting threads, if any. Taking the mutex
  and noting its holder are one step, as are clearing the holder and releasing it. Thread ids are
  positive; 0 is the value of \<^verbatim>\<open>holder_\<close> for no thread.
\<close>

section \<open>State and steps\<close>

datatype 'a pc = Idle
  | PutLock 'a | PutPush 'a | PutNotify | PutUnlock
  | TakeLock | TakeCheck | Waiting | Woken | TakePop | TakeUnlock 'a

record 'a bq =
  mutex :: "nat option"
  holder :: nat
  queue :: "'a list"
  pc :: "nat \<Rightarrow> 'a pc"
  puts :: "'a list" \<comment> \<open>all elements pushed so far, in order\<close>
  takes :: "'a list" \<comment> \<open>all elements popped so far, in order\<close>

definition goto :: "nat \<Rightarrow> 'a pc \<Rightarrow> 'a bq \<Rightarrow> 'a bq" where
  "goto t c s = s\<lparr>pc := (pc s)(t := c)\<rparr>"

definition lock :: "nat \<Rightarrow> 'a bq \<Rightarrow> 'a bq" where
  "lock t s = s\<lparr>mutex := Some t, holder := t\<rparr>"

definition unlock :: "'a bq \<Rightarrow> 'a bq" where
  "unlock s = s\<lparr>mutex := None, holder := 0\<rparr>"

definition isLockedByThisThread :: "nat \<Rightarrow> 'a bq \<Rightarrow> bool" where
  "isLockedByThisThread t s \<longleftrightarrow> holder s = t"

text \<open>The calls by which idle threads enter the two methods.\<close>

inductive bq_call :: "'a bq \<Rightarrow> 'a bq \<Rightarrow> bool" where
  call_put: "pc s t = Idle \<Longrightarrow> 0 < t \<Longrightarrow> bq_call s (goto t (PutLock x) s)"
| call_take: "pc s t = Idle \<Longrightarrow> 0 < t \<Longrightarrow> bq_call s (goto t TakeLock s)"

text \<open>The steps inside \<^verbatim>\<open>put\<close> and \<^verbatim>\<open>take\<close> by thread \<open>t\<close>, spurious wakeups apart.\<close>

inductive bq_run :: "nat \<Rightarrow> 'a bq \<Rightarrow> 'a bq \<Rightarrow> bool" where
  put_lock: "pc s t = PutLock x \<Longrightarrow> mutex s = None \<Longrightarrow> bq_run t s (goto t (PutPush x) (lock t s))"
| put_push: "pc s t = PutPush x \<Longrightarrow>
    bq_run t s (goto t PutNotify (s\<lparr>queue := queue s @ [x], puts := puts s @ [x]\<rparr>))"
| put_notify: "pc s t = PutNotify \<Longrightarrow> finite W \<Longrightarrow> W \<subseteq> {u. pc s u = Waiting} \<Longrightarrow>
    (W = {} \<longrightarrow> {u. pc s u = Waiting} = {}) \<Longrightarrow>
    bq_run t s (goto t PutUnlock (s\<lparr>pc := \<lambda>u. if u \<in> W then Woken else pc s u\<rparr>))"
| put_unlock: "pc s t = PutUnlock \<Longrightarrow> bq_run t s (goto t Idle (unlock s))"
| take_lock: "pc s t = TakeLock \<Longrightarrow> mutex s = None \<Longrightarrow> bq_run t s (goto t TakeCheck (lock t s))"
| take_empty: "pc s t = TakeCheck \<Longrightarrow> queue s = [] \<Longrightarrow> bq_run t s (goto t Waiting (unlock s))"
| take_found: "pc s t = TakeCheck \<Longrightarrow> queue s \<noteq> [] \<Longrightarrow> bq_run t s (goto t TakePop s)"
| take_woken: "pc s t = Woken \<Longrightarrow> mutex s = None \<Longrightarrow> bq_run t s (goto t TakeCheck (lock t s))"
| take_pop: "pc s t = TakePop \<Longrightarrow> queue s = x # xs \<Longrightarrow>
    bq_run t s (goto t (TakeUnlock x) (s\<lparr>queue := xs, takes := takes s @ [x]\<rparr>))"
| take_unlock: "pc s t = TakeUnlock x \<Longrightarrow> bq_run t s (goto t Idle (unlock s))"

inductive bq_step :: "'a bq \<Rightarrow> 'a bq \<Rightarrow> bool" where
  called: "bq_call s s' \<Longrightarrow> bq_step s s'"
| ran: "bq_run t s s' \<Longrightarrow> bq_step s s'"
| spurious: "pc s t = Waiting \<Longrightarrow> bq_step s (goto t Woken s)"

definition new_BlockingQueue :: "'a bq" where
  "new_BlockingQueue = \<lparr>mutex = None, holder = 0, queue = [], pc = \<lambda>_. Idle, puts = [], takes = []\<rparr>"

section \<open>Invariants\<close>

text \<open>The program points inside the critical section.\<close>

fun critical :: "'a pc \<Rightarrow> bool" where
  "critical (PutPush x) = True" | "critical PutNotify = True" | "critical PutUnlock = True"
| "critical TakeCheck = True" | "critical TakePop = True" | "critical (TakeUnlock x) = True"
| "critical _ = False"

text \<open>The program points from which a thread is about to take an element or to wake one that will.\<close>

fun serving :: "'a pc \<Rightarrow> bool" where
  "serving PutNotify = True" | "serving Woken = True" | "serving TakeCheck = True" | "serving TakePop = True"
| "serving _ = False"

definition bq_safe :: "'a bq \<Rightarrow> bool" where
  "bq_safe s \<longleftrightarrow> (\<forall>t. critical (pc s t) \<longleftrightarrow> mutex s = Some t)
     \<and> holder s = (case mutex s of None \<Rightarrow> 0 | Some t \<Rightarrow> t)
     \<and> puts s = takes s @ queue s
     \<and> (\<forall>t. pc s t = TakePop \<longrightarrow> queue s \<noteq> [])
     \<and> pc s 0 = Idle"

definition servers :: "'a bq \<Rightarrow> nat set" where
  "servers s = {t. serving (pc s t)}"

definition bq_awake :: "'a bq \<Rightarrow> bool" where
  "bq_awake s \<longleftrightarrow> finite (servers s) \<and> ((\<exists>t. pc s t = Waiting) \<longrightarrow> length (queue s) \<le> card (servers s))"

lemmas bq_ops = goto_def lock_def unlock_def

lemma bq_safe_start: "bq_safe new_BlockingQueue" "bq_awake new_BlockingQueue"
  by (simp_all add: bq_safe_def bq_awake_def servers_def new_BlockingQueue_def)

text \<open>The conjuncts of the safety invariant, one by one.\<close>

definition exclusive :: "'a bq \<Rightarrow> bool" where
  "exclusive s \<longleftrightarrow> (\<forall>u. critical (pc s u) \<longleftrightarrow> mutex s = Some u)"

lemma exclusiveD: "exclusive s \<Longrightarrow> critical (pc s u) = (mutex s = Some u)"
  by (simp add: exclusive_def)

lemma run_exclusive:
  assumes "bq_run t s s'" and "exclusive s"
  shows "exclusive s'"
  unfolding exclusive_def
proof
  fix u
  note h = exclusiveD [OF assms(2), of t] exclusiveD [OF assms(2), of u]
  from assms(1) show "critical (pc s' u) = (mutex s' = Some u)"
  proof cases
    case (put_notify W)
    have "critical (if u \<in> W then Woken else pc s u) = critical (pc s u)"
      using put_notify(4) by auto
    with h put_notify show ?thesis
      by (cases "u = t") (auto simp: bq_ops)
  qed (use h in \<open>cases "u = t"; simp add: bq_ops\<close>)+
qed

lemma run_holder:
  assumes "bq_run t s s'" and "holder s = (case mutex s of None \<Rightarrow> 0 | Some t \<Rightarrow> t)"
  shows "holder s' = (case mutex s' of None \<Rightarrow> 0 | Some t \<Rightarrow> t)"
  using assms by (cases rule: bq_run.cases) (simp_all add: bq_ops)

lemma run_fifo:
  assumes "bq_run t s s'" and "puts s = takes s @ queue s"
  shows "puts s' = takes s' @ queue s'"
  using assms by (cases rule: bq_run.cases) (simp_all add: bq_ops)

text \<open>Only the thread in the critical section changes the queue.\<close>

lemma run_popping:
  assumes "bq_run t s s'" and "exclusive s" and "\<forall>u. pc s u = TakePop \<longrightarrow> queue s \<noteq> []"
  shows "\<forall>u. pc s' u = TakePop \<longrightarrow> queue s' \<noteq> []"
proof (intro allI impI)
  fix u
  assume u: "pc s' u = TakePop"
  note h = exclusiveD [OF assms(2), of t] exclusiveD [OF assms(2), of u] spec [OF assms(3), of u]
  from assms(1) u h show "queue s' \<noteq> []"
    by (cases rule: bq_run.cases) (auto simp: bq_ops split: if_splits)
qed

lemma run_zero:
  assumes "bq_run t s s'" and "pc s 0 = Idle"
  shows "pc s' 0 = Idle"
proof -
  have "t \<noteq> 0"
    using assms by (cases rule: bq_run.cases) (metis pc.distinct)+
  with assms show ?thesis
    by (cases rule: bq_run.cases) (auto simp: bq_ops)
qed

lemma bq_safe_iff:
  "bq_safe s \<longleftrightarrow> exclusive s \<and> holder s = (case mutex s of None \<Rightarrow> 0 | Some t \<Rightarrow> t)
     \<and> puts s = takes s @ queue s \<and> (\<forall>t. pc s t = TakePop \<longrightarrow> queue s \<noteq> []) \<and> pc s 0 = Idle"
  unfolding bq_safe_def exclusive_def ..

lemma bq_run_safe:
  assumes "bq_run t s s'" and "bq_safe s"
  shows "bq_safe s'"
  using assms(2) run_exclusive [OF assms(1)] run_holder [OF assms(1)] run_fifo [OF assms(1)]
    run_popping [OF assms(1)] run_zero [OF assms(1)]
  unfolding bq_safe_iff by blast

text \<open>A step outside the critical section of one thread that stays outside.\<close>

lemma goto_safe:
  assumes "bq_safe s" and "\<not> critical (pc s t)" and "\<not> critical c" and "0 < t"
  shows "bq_safe (goto t c s)"
proof -
  have "c \<noteq> TakePop"
    using assms(3) by auto
  with assms show ?thesis
    unfolding bq_safe_iff exclusive_def by (auto simp: goto_def)
qed

lemma bq_step_safe:
  assumes "bq_step s s'" and "bq_safe s"
  shows "bq_safe s'"
  using assms(1)
proof cases
  case called
  then show ?thesis
    by cases (use assms(2) in \<open>auto intro!: goto_safe\<close>)
next
  case (ran t)
  then show ?thesis
    using assms(2) by (rule bq_run_safe)
next
  case (spurious t)
  then have "0 < t"
    using assms(2) by (cases t) (auto simp: bq_safe_def)
  with spurious assms(2) show ?thesis
    by (auto intro!: goto_safe)
qed

section \<open>No lost wakeup\<close>

lemma servers_goto:
  "servers (goto t c s) = (if serving c then insert t (servers s) else servers s - {t})"
  by (auto simp: servers_def goto_def)

lemma servers_frame [simp]:
  "servers (lock t s) = servers s" "servers (unlock s) = servers s"
  "servers (s\<lparr>queue := q, puts := ps\<rparr>) = servers s" "servers (s\<lparr>queue := q, takes := ps\<rparr>) = servers s"
  by (simp_all add: servers_def bq_ops)

lemma queue_frame [simp]:
  "queue (lock t s) = queue s" "queue (unlock s) = queue s" "queue (goto t c s) = queue s"
  by (simp_all add: bq_ops)

text \<open>How a step changes the number of serving threads and the queue.\<close>

lemma awake_mono:
  assumes "bq_awake s" and "servers s \<subseteq> servers s'" and "finite (servers s')" and "queue s' = queue s"
    and "(\<exists>t. pc s' t = Waiting) \<longrightarrow> (\<exists>t. pc s t = Waiting)"
  shows "bq_awake s'"
  using assms card_mono [OF assms(3,2)] unfolding bq_awake_def by auto

lemma goto_awake:
  assumes "bq_awake s" and "serving (pc s t) \<longrightarrow> serving c" and "c \<noteq> Waiting"
  shows "bq_awake (goto t c s)"
proof (rule awake_mono [OF assms(1)])
  show "servers s \<subseteq> servers (goto t c s)"
    using assms(2) by (auto simp: servers_goto) (auto simp: servers_def)
  show "finite (servers (goto t c s))"
    using assms(1) by (simp add: servers_goto bq_awake_def)
  show "(\<exists>u. pc (goto t c s) u = Waiting) \<longrightarrow> (\<exists>u. pc s u = Waiting)"
    using assms(3) by (auto simp: goto_def split: if_splits)
qed simp

lemma frame_awake:
  assumes "bq_awake s"
  shows "bq_awake (lock t s)" and "bq_awake (unlock s)"
  using assms by (simp_all add: bq_awake_def) (simp_all add: bq_ops)

lemma pc_frame [simp]: "pc (lock t s) = pc s" "pc (unlock s) = pc s"
  by (simp_all add: bq_ops)

lemma notify_awake:
  assumes "bq_awake s" and "pc s t = PutNotify" and "finite W" and "W \<subseteq> {u. pc s u = Waiting}"
    and "W = {} \<longrightarrow> {u. pc s u = Waiting} = {}"
  shows "bq_awake (goto t PutUnlock (s\<lparr>pc := \<lambda>u. if u \<in> W then Woken else pc s u\<rparr>))" (is "bq_awake ?s")
proof -
  have sv: "servers ?s = (servers s - {t}) \<union> W" and dis: "(servers s - {t}) \<inter> W = {}"
    using assms(2,4) by (auto simp: servers_def goto_def)
  have fin: "finite (servers s)" "t \<in> servers s"
    using assms(1,2) by (auto simp: bq_awake_def servers_def)
  have "length (queue s) \<le> card (servers ?s)" if "pc ?s u = Waiting" for u
  proof -
    have "pc s u = Waiting"
      using that by (auto simp: goto_def split: if_splits)
    then have "length (queue s) \<le> card (servers s)" "W \<noteq> {}"
      using assms(1,5) by (auto simp: bq_awake_def)
    moreover have "card (servers ?s) = card (servers s) - 1 + card W"
      unfolding sv using fin assms(3) dis by (subst card_Un_disjoint) auto
    moreover have "0 < card W"
      using assms(3) \<open>W \<noteq> {}\<close> by (simp add: card_gt_0_iff)
    ultimately show ?thesis
      by simp
  qed
  moreover have "finite (servers ?s)" "queue ?s = queue s"
    using fin assms(3) by (simp add: sv) (simp add: goto_def)
  ultimately show ?thesis
    unfolding bq_awake_def by metis
qed

lemma bq_run_awake:
  assumes "bq_run t s s'" and "bq_awake s"
  shows "bq_awake s'"
  using assms(1)
proof cases
  case (put_push x)
  have "t \<notin> servers s" "finite (servers s)"
    using put_push assms(2) by (simp_all add: servers_def bq_awake_def)
  moreover have "(\<exists>u. pc s' u = Waiting) \<longrightarrow> (\<exists>u. pc s u = Waiting)"
    using put_push by (auto simp: goto_def split: if_splits)
  ultimately show ?thesis
    using assms(2) put_push by (auto simp: bq_awake_def servers_goto)
next
  case (put_notify W)
  then show ?thesis
    using notify_awake [OF assms(2)] by simp
next
  case take_empty
  then show ?thesis
    using assms(2) by (simp add: bq_awake_def servers_goto)
next
  case (take_pop x xs)
  have "t \<in> servers s" "finite (servers s)"
    using take_pop assms(2) by (simp_all add: servers_def bq_awake_def)
  moreover have "(\<exists>u. pc s' u = Waiting) \<longrightarrow> (\<exists>u. pc s u = Waiting)"
    using take_pop by (auto simp: goto_def split: if_splits)
  ultimately show ?thesis
    using assms(2) take_pop by (auto simp: bq_awake_def servers_goto)
qed (use assms(2) in \<open>auto intro!: goto_awake frame_awake\<close>)

lemma bq_step_awake:
  assumes "bq_step s s'" and "bq_awake s"
  shows "bq_awake s'"
  using assms(1)
proof cases
  case called
  then show ?thesis
    by cases (use assms(2) in \<open>auto intro!: goto_awake\<close>)
next
  case (ran t)
  then show ?thesis
    using assms(2) by (rule bq_run_awake)
next
  case (spurious t)
  then show ?thesis
    using assms(2) by (auto intro!: goto_awake)
qed

lemma bq_reachable:
  assumes "bq_step\<^sup>*\<^sup>* new_BlockingQueue s"
  shows "bq_safe s \<and> bq_awake s"
  using assms by (induction rule: rtranclp_induct) (auto simp: bq_safe_start intro: bq_step_safe bq_step_awake)

text \<open>A thread that is neither idle nor waiting nor queuing for the mutex can always run on.\<close>

lemma critical_runs:
  assumes "bq_safe s" and "critical (pc s t)"
  shows "\<exists>s'. bq_run t s s'"
proof (cases "pc s t")
  case PutNotify
  show ?thesis
  proof (cases "{u. pc s u = Waiting} = {}")
    case True
    then show ?thesis
      using put_notify [OF PutNotify, of "{}"] by auto
  next
    case False
    then obtain u where "pc s u = Waiting"
      by auto
    then show ?thesis
      using put_notify [OF PutNotify, of "{u}"] by auto
  qed
next
  case TakePop
  then obtain x xs where "queue s = x # xs"
    using assms(1) by (auto simp: bq_safe_def neq_Nil_conv)
  with TakePop show ?thesis
    by (blast intro: take_pop)
next
  case TakeCheck
  then show ?thesis
    by (cases "queue s = []") (blast intro: take_empty take_found)+
qed (use assms(2) in \<open>auto intro: bq_run.intros\<close>)

section \<open>Properties\<close>

text \<open>
  C39: The blocking queue is a queue under every interleaving. However threads call
  \<^verbatim>\<open>put\<close> and \<^verbatim>\<open>take\<close>, and whichever waits end spuriously, the elements taken so far,
  followed by those in the queue, are the elements put, each once and in the order in which they
  were put; at most one thread is between locking and unlocking, and it is the one that
  \<^verbatim>\<open>isLockedByThisThread\<close> names; and the assertion in \<^verbatim>\<open>take\<close> that the queue is not empty
  always holds.
\<close>

theorem BlockingQueue_fifo:
  assumes "bq_step\<^sup>*\<^sup>* new_BlockingQueue s"
  shows "puts s = takes s @ queue s
    \<and> (\<forall>t u. critical (pc s t) \<and> critical (pc s u) \<longrightarrow> t = u)
    \<and> (\<forall>t. 0 < t \<longrightarrow> (critical (pc s t) \<longleftrightarrow> isLockedByThisThread t s))
    \<and> (\<forall>t. pc s t = TakePop \<longrightarrow> queue s \<noteq> [])"
proof -
  have safe: "bq_safe s"
    using bq_reachable [OF assms] by blast
  then have "exclusive s" "holder s = (case mutex s of None \<Rightarrow> 0 | Some t \<Rightarrow> t)"
    by (simp_all add: bq_safe_iff)
  then show ?thesis
    using safe by (auto simp: bq_safe_def exclusive_def isLockedByThisThread_def split: option.splits)
qed

text \<open>
  C38: no wakeup is lost. In every reachable state in which the queue holds an element while some thread
  waits for one, another thread is on its way: a thread can run a step now, and some thread that is
  about to take an element or to signal one is not waiting. So the queue never deadlocks with work
  left in it.
\<close>

theorem BlockingQueue_no_lost_wakeup:
  assumes "bq_step\<^sup>*\<^sup>* new_BlockingQueue s" and "queue s \<noteq> []" and "pc s w = Waiting"
  shows "\<exists>t. serving (pc s t) \<and> (\<exists>u s'. bq_run u s s')"
proof -
  have inv: "bq_safe s" "bq_awake s"
    using bq_reachable [OF assms(1)] by blast+
  then have "length (queue s) \<le> card (servers s)"
    using assms(3) by (auto simp: bq_awake_def)
  then have "servers s \<noteq> {}"
    using assms(2) by auto
  then obtain t where t: "serving (pc s t)"
    by (auto simp: servers_def)
  have "\<exists>u s'. bq_run u s s'"
  proof (cases "mutex s")
    case (Some u)
    then have "critical (pc s u)"
      using inv(1) by (simp add: bq_safe_def)
    then show ?thesis
      using critical_runs [OF inv(1)] by blast
  next
    case None
    then have "\<not> critical (pc s t)"
      using inv(1) by (simp add: bq_safe_def)
    with t have "pc s t = Woken"
      by (cases "pc s t") auto
    then show ?thesis
      using None by (blast intro: take_woken)
  qed
  with t show ?thesis
    by blast
qed

text \<open>Thread 1 waits, thread 2 has put an element and is about to signal it.\<close>

definition demo_bq :: "nat bq" where
  "demo_bq = \<lparr>mutex = Some 2, holder = 2, queue = [7],
     pc = (\<lambda>_. Idle)(1 := Waiting, 2 := PutNotify), puts = [7], takes = []\<rparr>"

lemma demo_bq_reachable: "bq_step\<^sup>*\<^sup>* new_BlockingQueue demo_bq"
proof -
  let ?b = "\<lambda>m h q f. \<lparr>mutex = m, holder = h, queue = q, pc = f, puts = q, takes = []\<rparr> :: nat bq"
  have 1: "bq_step new_BlockingQueue (?b None 0 [] ((\<lambda>_. Idle)(1 := TakeLock)))"
    using called [OF call_take [of new_BlockingQueue 1]] by (simp add: new_BlockingQueue_def bq_ops)
  have 2: "bq_step (?b None 0 [] ((\<lambda>_. Idle)(1 := TakeLock))) (?b (Some 1) 1 [] ((\<lambda>_. Idle)(1 := TakeCheck)))"
    using ran [OF take_lock [of "?b None 0 [] ((\<lambda>_. Idle)(1 := TakeLock))" 1]] by (simp add: bq_ops)
  have 3: "bq_step (?b (Some 1) 1 [] ((\<lambda>_. Idle)(1 := TakeCheck))) (?b None 0 [] ((\<lambda>_. Idle)(1 := Waiting)))"
    using ran [OF take_empty [of "?b (Some 1) 1 [] ((\<lambda>_. Idle)(1 := TakeCheck))" 1]] by (simp add: bq_ops)
  have 4: "bq_step (?b None 0 [] ((\<lambda>_. Idle)(1 := Waiting))) (?b None 0 [] ((\<lambda>_. Idle)(1 := Waiting, 2 := PutLock 7)))"
    using called [OF call_put [of "?b None 0 [] ((\<lambda>_. Idle)(1 := Waiting))" 2 7]] by (simp add: bq_ops)
  have 5: "bq_step (?b None 0 [] ((\<lambda>_. Idle)(1 := Waiting, 2 := PutLock 7)))
      (?b (Some 2) 2 [] ((\<lambda>_. Idle)(1 := Waiting, 2 := PutPush 7)))"
    using ran [OF put_lock [of "?b None 0 [] ((\<lambda>_. Idle)(1 := Waiting, 2 := PutLock 7))" 2 7]] by (simp add: bq_ops)
  have 6: "bq_step (?b (Some 2) 2 [] ((\<lambda>_. Idle)(1 := Waiting, 2 := PutPush 7))) demo_bq"
    using ran [OF put_push [of "?b (Some 2) 2 [] ((\<lambda>_. Idle)(1 := Waiting, 2 := PutPush 7))" 2 7]]
    by (simp add: bq_ops demo_bq_def)
  show ?thesis
    by (rule converse_rtranclp_into_rtranclp, rule 1, rule converse_rtranclp_into_rtranclp, rule 2,
        rule converse_rtranclp_into_rtranclp, rule 3, rule converse_rtranclp_into_rtranclp, rule 4,
        rule converse_rtranclp_into_rtranclp, rule 5, rule converse_rtranclp_into_rtranclp, rule 6,
        rule rtranclp.rtrancl_refl)
qed

theorem BlockingQueue_fifo_witness:
  "puts demo_bq = takes demo_bq @ queue demo_bq \<and> isLockedByThisThread 2 demo_bq"
proof -
  have "critical (pc demo_bq 2)"
    by (simp add: demo_bq_def)
  moreover have "puts demo_bq = takes demo_bq @ queue demo_bq"
    "\<forall>t. 0 < t \<longrightarrow> (critical (pc demo_bq t) \<longleftrightarrow> isLockedByThisThread t demo_bq)"
    using BlockingQueue_fifo [OF demo_bq_reachable] by blast+
  ultimately show ?thesis
    by simp
qed

theorem BlockingQueue_no_lost_wakeup_witness:
  "\<exists>t. serving (pc demo_bq t) \<and> (\<exists>u s'. bq_run u demo_bq s')"
  by (rule BlockingQueue_no_lost_wakeup [OF demo_bq_reachable, of 1]) (simp_all add: demo_bq_def)

end
