(* ===== verification/Spec2Isabelle.thy ===== *)
theory Spec2Isabelle
  imports Peer_Anomalies Echo_Server Echo_Client Server_Order Rpc_Objects Lifecycle Request_Fates Log_Positions Obj_Pool
    Fixed_Function Log_Text Clocks Blocking_Queue
begin

text \<open>
  \<^bold>\<open>jkv\<close> is a key-value server replicated with Raft. This development models the code of
  \<^verbatim>\<open>src/src\<close> and \<^verbatim>\<open>src/example\<close>, and the classes that the vendored headers of
  \<^verbatim>\<open>src/third-party/jrpc\<close> define themselves, as HOL functions, and proves what makes them
  correct.

  \<^bold>\<open>The program.\<close> A server process (example/echo/server) creates a \<^verbatim>\<open>PeerHost\<close> with one
  local \<^verbatim>\<open>Peer\<close>, starts the peer's timer and registers two RPC services. A client request
  reaches \<^verbatim>\<open>KvServiceImpl::KvOp\<close>, which queues a callback in the host's event loop; the
  callback rejects the request if the peer is not the leader and otherwise proposes it to the peer's
  Raft node and files a \<^verbatim>\<open>Proposal\<close> (log position, response, completion closure). Messages
  of other servers reach \<^verbatim>\<open>RaftMsgServiceImpl\<close>, whose callback steps the addressed peer.
  Every tick of the timer asks the Raft node what is ready: entries are appended, messages sent
  through cached RPC clients, committed entries applied to the peer's \<^verbatim>\<open>DiskStorage\<close> and the
  proposals of these entries answered. The client program (example/echo/client) sends one Get, Put or
  Del.

  \<^bold>\<open>Theories and code.\<close>
  \<^item> \<open>Jkv_Prelude\<close>: machine integers, outcomes (a value, a reached \<^verbatim>\<open>JLOG_FATAL\<close>, an
    exception that nothing catches, or undefined behaviour), their sequencing and the range-for loop \<open>ofold\<close> with its invariant,
    simulation and progress rules.
  \<^item> \<open>Messages\<close>: the protobuf messages of \<^verbatim>\<open>pb/*.proto\<close> as records.
  \<^item> \<open>Closures\<close>: the store of response objects, the log of closures that ran, and
    \<^verbatim>\<open>jrpc::ClosureGuard\<close>.
  \<^item> \<open>Proposals\<close>: \<^verbatim>\<open>Proposal\<close>, \<^verbatim>\<open>Peer::GetProposal\<close>,
    \<^verbatim>\<open>Peer::CallbackAll\<close>; equivalence with a search in (term, index) order.
  \<^item> \<open>Disk_Storage\<close>: \<^verbatim>\<open>DiskStorage\<close> over LevelDB as a parameter; the interface of a
    store as the locales \<open>kv_store\<close> and \<open>reliable_kv_store\<close>.
  \<^item> \<open>Cstrings\<close>, \<open>Group_Members\<close>: \<^verbatim>\<open>std::to_string\<close>, \<^verbatim>\<open>atoi\<close>,
    \<^verbatim>\<open>GroupMember\<close> and \<^verbatim>\<open>Peer::InitGroupMembers\<close>; round trip, bounds,
    well-formedness of the table.
  \<^item> \<open>Rpc_Clients\<close>: \<^verbatim>\<open>RpcClient\<close> as its header defines it, the client cache and
    \<^verbatim>\<open>PeerHost::GetClient\<close>, and the objects that a call owns.
  \<^item> \<open>Peer\<close>: the class \<^verbatim>\<open>Peer\<close> (peer.h, peer.cc), one definition per method.
    \<open>Instances\<close> has concrete collaborators at which the model is evaluated.
  \<^item> \<open>Peer_Log\<close>: applying committed entries as a deterministic machine over the log (locale
    \<open>log_machine\<close>), refinement of \<open>replay\<close>, exactly which logs a replica survives.
  \<^item> \<open>Peer_Answers\<close>, \<open>Peer_Anomalies\<close>: accounting for completion closures (locale
    \<open>closure_accounting\<close>), what answers mean, and the cases in which they mislead.
  \<^item> \<open>Peer_Ready\<close>: \<^verbatim>\<open>SendMsgs\<close>, \<^verbatim>\<open>HandleRaftReady\<close>, \<^verbatim>\<open>Tick\<close>.
  \<^item> \<open>Peer_Host\<close>: \<^verbatim>\<open>PeerHost\<close> (peer\_host.h, peer\_host.cc) and its invariant.
  \<^item> \<open>Services\<close>: the two services (service/*.cc) and the server as a step relation: requests
    arrive, queued callbacks run in any order, timers fire, replies come back; invariant over all
    reachable states.
  \<^item> \<open>Replication\<close>, \<open>Server_Order\<close>, \<open>Rpc_Objects\<close>, \<open>Cluster\<close>: guarantees over whole executions: the
    store follows the group's log, servers are consistent, a restarted replica recovers, a committed
    Get of an absent key stops every replica, RPC objects are neither leaked nor deleted twice, and the
    messages of a cluster pass the guards of their receivers; and, as long as no proposal is dropped,
    queues stay in log order and reads are answered from their position in the log and see what was
    applied before.
  \<^item> \<open>Cluster_Runs\<close>: a run of a cluster projects to executions of its servers; a cluster whose
    surroundings behave handles every event, so no server stops.
  \<^item> \<open>Request_Fates\<close>: exact accounting for completion closures (locale \<open>closure_conserving\<close>, an
    extension of \<open>closure_accounting\<close>): no request is lost.
  \<^item> \<open>Atomic_Store\<close>, \<open>Atomic_Refinement\<close>, \<open>Log_Positions\<close>: an atomic key-value store as an abstract
    machine (calls wait, are served at one instant, refused, or forgotten when they name no command),
    the same machine driven by the entries of a log, and the locale \<open>forward_simulation\<close>. A server
    whose Raft node drops no proposal simulates the first, so client calls are linearisable; the servers
    of such a group simulate the second over one log, so calls are linearisable across the group. A call waits first as a queued callback
    and then as a proposal; its answer is what its response holds when its closure runs.
  \<^item> \<open>Echo_Server\<close>, \<open>Echo_Client\<close>: flags, their checks and \<^verbatim>\<open>main\<close> of the two programs.
  \<^item> \<open>Lifecycle\<close>: the destructors \<^verbatim>\<open>~Peer\<close>, \<^verbatim>\<open>~DiskStorage\<close>, \<^verbatim>\<open>~PeerHost\<close>; shutting
    a server down and starting it again on its directories.
  \<^item> \<open>Rpc_Controller\<close>, \<open>Obj_Pool\<close>, \<open>Fixed_Function\<close>, \<open>Comparators\<close>, \<open>Log_Text\<close>, \<open>Clocks\<close>,
    \<open>Blocking_Queue\<close>: classes of the jrpc headers: the controller of a call with its attachments
    (locale \<open>attachment_list\<close>), the object pool (locale \<open>allocator\<close>), the
    inline function object, orders on keys (locale \<open>key_order\<close>), string pieces and log buffers,
    times and timers, the blocking queue as a step relation over threads.
  \<^item> This theory: a client's command followed through both programs, to its answer or its rejection.

  \<^bold>\<open>State.\<close> A class is a record with the class's members; methods take the object and return it
  updated. What a peer reaches through its host (responses, closures, client cache, calls) is a
  record that the host's record extends, so a method of the peer works on every extension. Response
  objects are addressed, because a proposal fills its response long after the request handler
  returned. Machine integers keep their width. No definition uses fuel: every loop of the code runs
  over a list or shortens a queue, and the event loop is a step relation.

  \<^bold>\<open>Parameters and hypotheses.\<close> Code that is not part of the repository is an argument of the
  definitions: the Raft library (record \<open>jraft\<close>; its submodule is empty; its configuration check and
  its node constructor may fail), LevelDB (record \<open>leveldb\<close>), the generated serialisation (record
  \<open>pb_codec\<close>), \<^verbatim>\<open>boost::split\<close>, the calls of \<^verbatim>\<open>boost::filesystem\<close>, which may
  throw (record \<open>filesystem\<close>), the iteration order of an unordered map, and the result of
  opening a connection. What theorems assume of them is named: \<open>leveldb_contract\<close> (an operation
  with status ok has its effect), \<open>leveldb_reliable\<close> (no I/O errors), \<open>codec_contract\<close> (parsing
  inverts printing), \<open>split_contract\<close>, \<open>raft_addresses\<close> (messages go to
  members), \<open>reopens\<close> (a closed database is opened with the contents it had), \<open>raft_delivers\<close>
  (committed entries are handed out in log order without gap or repetition), \<open>raft_orders\<close> (terms grow; the log of
  a node does not shrink in a term it led; the log of a leader has fewer than \<open>2\<^sup>6\<^sup>4 - 1\<close> entries)
  and \<open>raft_files\<close> (a proposal that a leader accepts has the index after its last one and its term, and
  an entry handed out with that index and term is that proposal). Each is shown to hold of a concrete
  instance.

  \<^bold>\<open>Dropped proposals.\<close> A leader may drop a proposal (\<^verbatim>\<open>kErrProposalDropped\<close>), and
  \<^verbatim>\<open>ProposeKvOp\<close> ignores the result of \<^verbatim>\<open>Propose\<close>. No hypothesis on the Raft library
  excludes that. The order of the queues, the answers in terms of the log and the linearisability of
  client calls do not survive it: the theory \<open>Peer_Anomalies\<close> shows a wrong answer. They are therefore stated for the executions in which the Raft node appended every
  proposal that the server filed: \<open>propose_accepted\<close> for one proposal, \<open>undropped\<close> for a step,
  \<open>undropped_execution\<close> and \<open>client_step\<close> for executions. The stores of replicas, their
  consistency, the accounting for closures and the progress of a cluster need no such condition.

  \<^bold>\<open>Not modelled.\<close> The inside of the Raft library and of LevelDB, threads and sockets (the event
  loop appears as the order of steps only), command line parsing, the text of log messages, the
  order in which \<^verbatim>\<open>main\<close> tears down its library objects, the parts of the jrpc headers that are
  declared without a body or compute with \<^verbatim>\<open>double\<close>, the unit tests (their subjects are not in the repository), and build files. The logger's
  destructor is not part of the sources either: the model stops at a \<^verbatim>\<open>JLOG_FATAL\<close>.
\<close>

section \<open>Properties that span components\<close>

text \<open>
  C10: a client's command goes through end to end. The client program sends a request to the leader;
  \<^verbatim>\<open>KvOpCb\<close> proposes it; the Raft node accepts the proposal and later hands it back as a
  committed entry, after entries that lie before it in the log. Once the peer has applied these
  entries, the last answer is the client's, the store holds the replayed log changed by exactly the
  operation of the command line, and a Get is answered with the value the key had at that point. If
  the request came with a response object of its own that was not marked rejected, the callback of
  the client program, on a controller without failure, accepts the answer: the program exits with
  status 0.
\<close>

theorem client_command_end_to_end:
  assumes "codec_contract pb" and "leveldb_contract ldb view"
    and "client_main connect w f = Inr (cl, req, cb)" and "SerializeToString pb req = Some x"
    and "local_peers s 1 = Some p" and "IsLeader jr p" and "proposals_inv jr p"
    and "propose_accepted jr (raw_node p) x" and "rn_LastIndex jr (raw_node p) \<noteq> - 1"
    and "KvOpCb jr pb req r d s = Inr s'" and "local_peers s' 1 = Some p'"
    and "e = \<lparr>entry_term = Term jr p, entry_index = rn_LastIndex jr (raw_node p) + 1,
           entry_type = kEntryNormal, entry_data = x\<rparr>"
    and "\<forall>e'\<in>set es. entry_term e' < entry_term e \<or>
           entry_term e' = entry_term e \<and> entry_index e' < entry_index e"
    and "ProcessEntries jr ldb pb (es @ [e]) (p', s') = Inr (p'', s'')"
    and "distinct (r # map p_resp (proposals p))" and "\<not> rejected (resps s r)"
  shows "\<exists>c rs h. asked_op f = Some c \<and> runs s'' = rs @ [(d, h)]
    \<and> disk_contents view (kv_db p'') = op_effect c (replay pb es (disk_contents view (kv_db p)))
    \<and> (\<forall>k. c = SGet k \<longrightarrow> (\<exists>v. get_resp_opt (h r) = Some \<lparr>get_value = v\<rparr>
         \<and> replay pb es (disk_contents view (kv_db p)) k = Some v))
    \<and> (\<not> Failed cntl \<longrightarrow> run_callback cb cntl (h r) = Inr 0)"
proof -
  let ?q = "new_Proposal (NextProposalIndex jr p) (Term jr p) r d"
  from assms(3) obtain c where c: "asked_op f = Some c" "req = op_request c" "cb = op_callback c"
    by (rule client_main_Inr)
  have s': "s' = s\<lparr>local_peers := (local_peers s)(1 \<mapsto> p')\<rparr>"
    and p': "p' = p\<lparr>proposals := proposals p @ [?q], raw_node := rn_Propose jr (raw_node p) x\<rparr>"
    using assms(10) ProposeKvOp_leader [OF assms(4,6), of r d] assms(5,6,11)
    by (auto elim!: KvOpCb_Inr)
  have q: "matches (entry_index e) (entry_term e) ?q" "\<forall>e'\<in>set es. entry_before e' ?q"
    using assms(12,13) by (auto simp: matches_def entry_before_def new_Proposal_def NextProposalIndex_def)
  have lead: "IsLeader jr p'" and mem: "?q \<in> set (proposals p')" and resp: "p_resp ?q = r" "p_done ?q = d"
    using assms(8) by (simp_all add: p' IsLeader_def propose_accepted_def new_Proposal_def)
  have ord: "ordered (proposals p')"
    using ProposeKvOp_ordered [OF assms(7,9)] by (simp add: p')
  have op: "entry_op pb e = Some c"
    using codec_entry_op [OF assms(1)] assms(4,12) c(2) by simp
  have "distinct (map p_resp (proposals p'))"
    using assms(15) by (auto simp: p' new_Proposal_def)
  from batch_not_rejected [OF assms(14) lead ord mem q this] resp(1) assms(16)
  have "\<not> rejected (resps s'' r)"
    by (simp add: s')
  then show ?thesis
    using batch_answer [OF assms(2,14) lead ord mem q op] c(1,3) resp by (auto simp: p' run_callback_iff)
qed

theorem client_command_end_to_end_witness:
  "\<exists>p'' rs h. runs (Run 8 (demo_server [1 \<mapsto> p''])) = rs @ [(8, h)]
     \<and> disk_contents map_of \<lparr>db_path = ''host/peer_1'', db = [(''a'', ''1'')]\<rparr> = [''a'' \<mapsto> ''1'']"
proof -
  obtain cl where m: "client_main (\<lambda>_. 0) 0 demo_client_flags = Inr (cl, mk_put ''a'' ''1'', Bound_PutCb)"
    using demo_client_main by blast
  have x: "SerializeToString demo_codec (mk_put ''a'' ''1'') = Some ''p1,a1''"
    by (simp add: demo_codec_def demo_print_put)
  let ?n = "solo_propose (solo_new True 1 0) ''p1,a1''"
  let ?p = "demo_added 1\<lparr>proposals := [new_Proposal 1 1 4 8], raw_node := ?n\<rparr>"
  let ?q = "?p\<lparr>proposals := [], kv_db := \<lparr>db_path = peer_dir ''host'' 1, db = [(''a'', ''1'')]\<rparr>\<rparr>"
  have peer: "local_peers (demo_server [1 \<mapsto> demo_added 1]) 1 = Some (demo_added 1)"
    "IsLeader solo_raft (demo_added 1)" "proposals_inv solo_raft (demo_added 1)"
    "propose_accepted solo_raft (raw_node (demo_added 1)) ''p1,a1''"
    "rn_LastIndex solo_raft (raw_node (demo_added 1)) \<noteq> - 1"
    by (simp_all add: demo_server_def demo_added_def IsLeader_def proposals_inv_def ordered_def
        propose_accepted_def solo_defs)
  have kv: "KvOpCb solo_raft demo_codec (mk_put ''a'' ''1'') 4 8 (demo_server [1 \<mapsto> demo_added 1]) =
      Inr (demo_server [1 \<mapsto> ?p])"
    by (simp add: KvOpCb_def with_peer_def mutable_local_peers_def demo_server_def demo_added_def IsLeader_def
        ProposeKvOp_def Term_def NextProposalIndex_def solo_defs x)
  have p: "local_peers (demo_server [1 \<mapsto> ?p]) 1 = Some ?p"
    by (simp add: demo_server_def)
  have e: "demo_entry 1 1 ''p1,a1'' = \<lparr>entry_term = Term solo_raft (demo_added 1),
      entry_index = rn_LastIndex solo_raft (raw_node (demo_added 1)) + 1,
      entry_type = kEntryNormal, entry_data = ''p1,a1''\<rparr>"
    by (simp add: demo_entry_def Term_def demo_added_def solo_defs)
  have run: "ProcessEntries solo_raft mem_leveldb demo_codec ([] @ [demo_entry 1 1 ''p1,a1''])
      (?p, demo_server [1 \<mapsto> ?p]) = Inr (?q, Run 8 (demo_server [1 \<mapsto> ?p]))"
    by (simp add: peer_eval demo_added_def demo_entry_def solo_defs demo_codec_defs store_eval new_Proposal_def)
  show ?thesis
    using client_command_end_to_end [OF demo_codec_contract mem_leveldb_contract m x peer kv p e _ run]
    by (auto simp: asked_op_def demo_client_flags_def disk_contents_def demo_added_def demo_server_def
        default_KvResp_def)
qed

text \<open>
  C19: a command that reaches a server that is not the leader stops the client. The server answers at
  once and its state is otherwise unchanged; whatever becomes of the reply, the client program does
  not exit normally: it ends in the \<^verbatim>\<open>JLOG_FATAL\<close> that reports the failed call, or the one that
  reports the rejection of the operation of the command line.
\<close>

theorem rejected_command_end_to_end:
  assumes "client_main connect w f = Inr (cl, req, cb)" and "local_peers s 1 = Some p" and "\<not> IsLeader jr p"
  shows "\<exists>c s' h. asked_op f = Some c \<and> KvOpCb jr pb req r d s = Inr s' \<and> runs s' = runs s @ [(d, h)]
    \<and> local_peers s' = local_peers s \<and> sent s' = sent s
    \<and> (\<forall>cntl. run_callback cb cntl (h r) =
         (if Failed cntl then fatal (op_name c @ '' kv rpc failed, error text: '' @ ErrorText cntl)
          else fatal (''server rejected '' @ op_name c @ '' request'')))"
proof -
  from assms(1) obtain c where c: "asked_op f = Some c" "cb = op_callback c"
    by (rule client_main_Inr)
  have "KvOpCb jr pb req r d s = Inr (Run d (set_rejected r s))"
    using assms(2,3) by (simp add: KvOpCb_def mutable_local_peers_def guard_defs Let_def)
  then show ?thesis
    using c by (auto simp: run_callback_cases Run_def set_rejected_def)
qed

theorem rejected_command_end_to_end_witness:
  "\<exists>s' h. KvOpCb solo_raft demo_codec (mk_put ''a'' ''1'') 4 8
       (demo_server [1 \<mapsto> demo_added 1\<lparr>raw_node := solo_new False 1 0\<rparr>]) = Inr s' \<and> runs s' = [(8, h)]
     \<and> run_callback Bound_PutCb default_RpcController (h 4) = fatal ''server rejected put request''"
proof -
  obtain cl where m: "client_main (\<lambda>_. 0) 0 demo_client_flags = Inr (cl, mk_put ''a'' ''1'', Bound_PutCb)"
    using demo_client_main by blast
  let ?p = "demo_added 1\<lparr>raw_node := solo_new False 1 0\<rparr>"
  have "local_peers (demo_server [1 \<mapsto> ?p]) 1 = Some ?p" "\<not> IsLeader solo_raft ?p"
    by (simp_all add: demo_server_def IsLeader_def solo_defs)
  from rejected_command_end_to_end [OF m this, of demo_codec 4 8] show ?thesis
    by (auto simp: asked_op_def demo_client_flags_def op_name_def Failed_def default_RpcController_def demo_server_def)
qed

end
